theory Spec2Isabelle
  imports Main "HOL-Library.AList"
begin

section \<open>Python values used by the scheduler code\<close>

text \<open>
  The sources are Python 2. Integers are unbounded (\<open>int\<close>), strings are byte strings
  (\<open>string\<close>), and every exception the modelled code can raise is a value of \<open>exc\<close>;
  a function that can raise returns \<open>exc + 'a\<close> with \<open>Inl\<close> for the exception.
\<close>

datatype exc =
    ValueError
  | TypeError
  | IndexError
  | OverflowError
  | BadStamp
  | SystemExit int

datatype pyval = PyInt int | PyStr string | PyNone

text \<open>
  \<open>SystemExit\<close> is what \<open>sys.exit\<close> raises. It derives from \<open>BaseException\<close>, not from
  \<open>Exception\<close>, and when no caller catches it the interpreter ends the process with the
  given status.
\<close>

definition exits_process :: "exc \<Rightarrow> bool" where
  "exits_process e = (case e of SystemExit _ \<Rightarrow> True | _ \<Rightarrow> False)"

subsection \<open>\<open>str(n)\<close> for an integer\<close>

definition digit_char :: "nat \<Rightarrow> char" where
  "digit_char d = char_of (48 + d)"

fun digits_of :: "nat \<Rightarrow> string" where
  "digits_of n = (if n < 10 then [digit_char n] else digits_of (n div 10) @ [digit_char (n mod 10)])"

declare digits_of.simps [simp del]

definition py_str :: "int \<Rightarrow> string" where
  "py_str i = (if i < 0 then CHR ''-'' # digits_of (nat (- i)) else digits_of (nat i))"

subsection \<open>\<open>int(s)\<close> for a string\<close>

text \<open>
  \<open>int(s)\<close> skips leading blanks, reads an optional sign, skips blanks again (Python 2
  accepts \<open>int("- 5")\<close>), reads at least one decimal digit and allows only blanks after
  the digits. Anything else raises \<open>ValueError\<close>.
\<close>

definition is_space :: "char \<Rightarrow> bool" where
  "is_space c = (c \<in> set [CHR '' '', CHR 0x09, CHR 0x0A, CHR 0x0B, CHR 0x0C, CHR 0x0D])"

definition is_digit :: "char \<Rightarrow> bool" where
  "is_digit c = (48 \<le> (of_char c :: nat) \<and> (of_char c :: nat) \<le> 57)"

definition digit_val :: "char \<Rightarrow> nat" where
  "digit_val c = of_char c - 48"

definition digits_val :: "string \<Rightarrow> nat" where
  "digits_val ds = foldl (\<lambda>a c. 10 * a + digit_val c) 0 ds"

definition py_int :: "string \<Rightarrow> exc + int" where
  "py_int s =
     (let s1 = dropWhile is_space s;
          neg = (case s1 of c # _ \<Rightarrow> c = CHR ''-'' | [] \<Rightarrow> False);
          s2 = (case s1 of c # r \<Rightarrow> if c = CHR ''-'' \<or> c = CHR ''+'' then r else s1 | [] \<Rightarrow> s1);
          s3 = dropWhile is_space s2;
          ds = takeWhile is_digit s3;
          rest = dropWhile is_space (dropWhile is_digit s3)
      in if ds = [] \<or> rest \<noteq> [] then Inl ValueError
         else Inr (if neg then - int (digits_val ds) else int (digits_val ds)))"

text \<open>\<open>int(x)\<close> for a value that is already an integer returns it; \<open>int(None)\<close> raises.\<close>

fun py_int_val :: "pyval \<Rightarrow> exc + int" where
  "py_int_val (PyInt i) = Inr i"
| "py_int_val (PyStr s) = py_int s"
| "py_int_val PyNone = Inl TypeError"

section \<open>The asynchronous cycler (lib/cylc/cycling/async.py)\<close>

text \<open>
  \<open>offset(tag, n) = str(int(tag) - int(n))\<close>, \<open>next(tag) = str(int(tag) + 1)\<close>,
  \<open>initial_adjust_up(tag) = tag\<close>, \<open>valid(tag) = True\<close>.
\<close>

definition async_offset :: "string \<Rightarrow> pyval \<Rightarrow> exc + string" where
  "async_offset tag n =
     (case py_int tag of Inl e \<Rightarrow> Inl e
      | Inr a \<Rightarrow> (case py_int_val n of Inl e \<Rightarrow> Inl e | Inr b \<Rightarrow> Inr (py_str (a - b))))"

definition async_next :: "string \<Rightarrow> exc + string" where
  "async_next tag = (case py_int tag of Inl e \<Rightarrow> Inl e | Inr a \<Rightarrow> Inr (py_str (a + 1)))"

definition async_initial_adjust_up :: "string \<Rightarrow> string" where
  "async_initial_adjust_up tag = tag"

definition async_valid :: "string \<Rightarrow> bool" where
  "async_valid tag = True"

section \<open>Reference-time arithmetic\<close>

text \<open>
  Modelled from the spec: the module \<open>reference_time\<close> (\<open>increment\<close>, \<open>decrement\<close>) is
  used by tasks.py and is not part of the sources. The spec gives a stamp as ten decimal
  characters \<open>YYYYMMDDHH\<close>, arithmetic at hour granularity on the proleptic Gregorian
  calendar, and failure with \<open>BadStamp\<close> on malformed input. Years run from 1 to 9999, so
  that every result is again a ten-character stamp; leaving that range is an
  \<open>OverflowError\<close>, and an increment that is not a number is a \<open>TypeError\<close>.
\<close>

record stamp =
  yr :: nat
  mo :: nat
  dy :: nat
  hr :: nat

definition leap :: "nat \<Rightarrow> bool" where
  "leap y = (y mod 4 = 0 \<and> (y mod 100 \<noteq> 0 \<or> y mod 400 = 0))"

definition days_in_month :: "nat \<Rightarrow> nat \<Rightarrow> nat" where
  "days_in_month y m =
     (if m = 2 then (if leap y then 29 else 28)
      else if m = 4 \<or> m = 6 \<or> m = 9 \<or> m = 11 then 30 else 31)"

definition wf_date :: "stamp \<Rightarrow> bool" where
  "wf_date s = (1 \<le> yr s \<and> 1 \<le> mo s \<and> mo s \<le> 12 \<and> 1 \<le> dy s
                \<and> dy s \<le> days_in_month (yr s) (mo s) \<and> hr s \<le> 23)"

definition wf_stamp :: "stamp \<Rightarrow> bool" where
  "wf_stamp s = (wf_date s \<and> yr s \<le> 9999)"

definition fmt2 :: "nat \<Rightarrow> string" where
  "fmt2 n = [digit_char (n div 10 mod 10), digit_char (n mod 10)]"

definition fmt4 :: "nat \<Rightarrow> string" where
  "fmt4 n = [digit_char (n div 1000 mod 10), digit_char (n div 100 mod 10),
             digit_char (n div 10 mod 10), digit_char (n mod 10)]"

definition format_stamp :: "stamp \<Rightarrow> string" where
  "format_stamp s = fmt4 (yr s) @ fmt2 (mo s) @ fmt2 (dy s) @ fmt2 (hr s)"

definition parse_stamp :: "string \<Rightarrow> exc + stamp" where
  "parse_stamp rt =
     (if length rt = 10 \<and> list_all is_digit rt then
        (let s = \<lparr> yr = digits_val (take 4 rt), mo = digits_val (take 2 (drop 4 rt)),
                   dy = digits_val (take 2 (drop 6 rt)), hr = digits_val (take 2 (drop 8 rt)) \<rparr>
         in if wf_stamp s then Inr s else Inl BadStamp)
      else Inl BadStamp)"

definition next_hour :: "stamp \<Rightarrow> stamp" where
  "next_hour s =
     (if hr s < 23 then s\<lparr>hr := hr s + 1\<rparr>
      else if dy s < days_in_month (yr s) (mo s) then s\<lparr>dy := dy s + 1, hr := 0\<rparr>
      else if mo s < 12 then s\<lparr>mo := mo s + 1, dy := 1, hr := 0\<rparr>
      else s\<lparr>yr := yr s + 1, mo := 1, dy := 1, hr := 0\<rparr>)"

definition prev_hour :: "stamp \<Rightarrow> stamp" where
  "prev_hour s =
     (if 0 < hr s then s\<lparr>hr := hr s - 1\<rparr>
      else if 1 < dy s then s\<lparr>dy := dy s - 1, hr := 23\<rparr>
      else if 1 < mo s then s\<lparr>mo := mo s - 1, dy := days_in_month (yr s) (mo s - 1), hr := 23\<rparr>
      else s\<lparr>yr := yr s - 1, mo := 12, dy := 31, hr := 23\<rparr>)"

definition add_hours :: "stamp \<Rightarrow> int \<Rightarrow> stamp" where
  "add_hours s k = (if 0 \<le> k then (next_hour ^^ nat k) s else (prev_hour ^^ nat (- k)) s)"

definition increment :: "string \<Rightarrow> int option \<Rightarrow> exc + string" where
  "increment rt hours =
     (case parse_stamp rt of Inl e \<Rightarrow> Inl e
      | Inr s \<Rightarrow>
          (case hours of None \<Rightarrow> Inl TypeError
           | Some k \<Rightarrow>
               (let s' = add_hours s k
                in if wf_stamp s' then Inr (format_stamp s') else Inl OverflowError)))"

definition decrement :: "string \<Rightarrow> int option \<Rightarrow> exc + string" where
  "decrement rt hours = increment rt (map_option uminus hours)"

section \<open>Requisite sets\<close>

text \<open>
  Modelled from the spec: the module \<open>requisites\<close> is used by tasks.py and is not part of
  the sources. The spec gives a requisite as a text token with a satisfied flag, tokens
  unique within one set, and the operations exists, satisfied, set-satisfied,
  set-all-satisfied, all-satisfied (a conjunction) and satisfy-me. A set is an association
  list from token to flag, in the order of the initial sequence. The owner label (used for
  diagnostics) and the minute offsets of the timed variant (informational) are left out;
  satisfy-me is the exact variant.
\<close>

type_synonym requisites = "(string \<times> bool) list"

definition new_requisites :: "string list \<Rightarrow> requisites" where
  "new_requisites toks = map (\<lambda>t. (t, False)) (remdups toks)"

definition requisite_exists :: "requisites \<Rightarrow> string \<Rightarrow> bool" where
  "requisite_exists rs tok = (map_of rs tok \<noteq> None)"

definition is_satisfied :: "requisites \<Rightarrow> string \<Rightarrow> bool" where
  "is_satisfied rs tok = (map_of rs tok = Some True)"

definition set_satisfied :: "requisites \<Rightarrow> string \<Rightarrow> requisites" where
  "set_satisfied rs tok = AList.update tok True rs"

definition set_all_satisfied :: "requisites \<Rightarrow> requisites" where
  "set_all_satisfied rs = map (\<lambda>r. (fst r, True)) rs"

definition all_satisfied :: "requisites \<Rightarrow> bool" where
  "all_satisfied rs = list_all snd rs"

definition satisfy_me :: "requisites \<Rightarrow> requisites \<Rightarrow> requisites" where
  "satisfy_me rs other = map (\<lambda>r. (fst r, snd r \<or> is_satisfied other (fst r))) rs"

section \<open>Task instances (tasks.py)\<close>

text \<open>
  An instance has the attributes the methods of \<open>task_base\<close> read and write. The class
  attribute \<open>name\<close> and the requisites are set by the derived class before
  \<open>task_base.__init__\<close> runs. \<open>kind\<close> says whether the instance's class derives from
  \<open>runahead_task_base\<close>. What a method does outside the instance is collected in
  \<open>effects\<close>: the class-level flag \<open>task_base.processing_required\<close>, the records sent to
  the logger, and the commands passed to \<open>os.system\<close>.
\<close>

datatype kind = Standard | Runahead

datatype level = DEBUG | INFO | WARNING | CRITICAL

record task =
  kind :: kind
  name :: string
  ref_time :: string
  state :: string
  prerequisites :: requisites
  postrequisites :: requisites
  latest_message :: string
  abdicated :: bool

record effects =
  processing_required :: bool
  log :: "(level \<times> string) list"
  commands :: "string list"

definition logmsg :: "level \<Rightarrow> string \<Rightarrow> effects \<Rightarrow> effects" where
  "logmsg l m eff = eff\<lparr>log := log eff @ [(l, m)]\<rparr>"

definition MAX_FINISHED :: nat where
  "MAX_FINISHED = 4"

definition identity :: "task \<Rightarrow> string" where
  "identity self = name self @ ''%'' @ ref_time self"

definition display :: "task \<Rightarrow> string" where
  "display self = name self @ ''('' @ ref_time self @ '')''"

subsection \<open>Construction\<close>

text \<open>
  \<open>task_base.__init__(self, ref_time, initial_state)\<close>: the argument \<open>ref_time\<close> is not
  used; \<open>initial_state\<close> is a string or \<open>None\<close>. An unknown state logs a critical record
  and calls \<open>sys.exit(1)\<close>, which raises \<open>SystemExit(1)\<close>.
\<close>

definition task_base_init :: "task \<Rightarrow> string option \<Rightarrow> effects \<Rightarrow> (exc + task) \<times> effects" where
  "task_base_init self initial_state eff =
     (let eff1 = eff\<lparr>processing_required := True\<rparr>;
          self1 = self\<lparr>latest_message := [], abdicated := False\<rparr>
      in case initial_state of
           None \<Rightarrow> (Inr (self1\<lparr>state := ''waiting''\<rparr>), eff1)
         | Some st \<Rightarrow>
             if st = [] then (Inr (self1\<lparr>state := ''waiting''\<rparr>), eff1)
             else if st = ''waiting'' then (Inr (self1\<lparr>state := ''waiting''\<rparr>), eff1)
             else if st = ''finished'' then
               (Inr (self1\<lparr>postrequisites := set_all_satisfied (postrequisites self1),
                           state := ''finished''\<rparr>),
                logmsg WARNING (identity self1 @ '' starting in FINISHED state'') eff1)
             else if st = ''ready'' then
               (Inr (self1\<lparr>state := ''waiting'',
                           prerequisites := set_all_satisfied (prerequisites self1)\<rparr>),
                logmsg WARNING (identity self1 @ '' starting in READY state'') eff1)
             else (Inl (SystemExit 1), logmsg CRITICAL (''unknown initial task state: '' @ st) eff1))"

definition runahead_task_base_init ::
    "task \<Rightarrow> string option \<Rightarrow> effects \<Rightarrow> (exc + task) \<times> effects" where
  "runahead_task_base_init self initial_state eff =
     (case task_base_init (self\<lparr>kind := Runahead\<rparr>) initial_state eff of
        (Inl e, eff1) \<Rightarrow> (Inl e, eff1)
      | (Inr self1, eff1) \<Rightarrow>
          (Inr self1,
           logmsg INFO (identity self1 @ '' max runahead: '' @ py_str (int MAX_FINISHED) @ '' tasks'') eff1))"

subsection \<open>Reference times of a class\<close>

text \<open>
  \<open>valid_hours\<close> is a list held by the class. \<open>nearest_ref_time\<close> binds \<open>foo\<close> to that
  very list and appends to it, so the function returns the list as it is afterwards,
  next to its result. The loop \<open>for vh in foo\<close> is \<open>first_ge\<close>; \<open>incr\<close> stays \<open>None\<close>
  when no element is reached.
\<close>

fun first_ge :: "int \<Rightarrow> int list \<Rightarrow> int option" where
  "first_ge rh [] = None"
| "first_ge rh (vh # foo) = (if rh \<le> vh then Some (vh - rh) else first_ge rh foo)"

definition hour_field :: "string \<Rightarrow> exc + int" where
  "hour_field rt = py_int (take 2 (drop 8 rt))"

definition nearest_ref_time :: "int list \<Rightarrow> string \<Rightarrow> (exc + string) \<times> int list" where
  "nearest_ref_time valid_hours rt =
     (case hour_field rt of
        Inl e \<Rightarrow> (Inl e, valid_hours)
      | Inr rh \<Rightarrow>
          (case valid_hours of
             [] \<Rightarrow> (Inl IndexError, valid_hours)
           | first_vh # _ \<Rightarrow>
               (let extra_vh = 24 + first_vh;
                    foo = valid_hours @ [extra_vh];
                    incr = first_ge rh foo
                in (increment rt incr, foo))))"

text \<open>
  The list \<open>valid_hours\<close> of a class, as declared (hours of the day, the first one first)
  and as \<open>nearest_ref_time\<close> leaves it (with the first hour plus 24 appended, any number
  of times).
\<close>

definition class_hours :: "int list \<Rightarrow> bool" where
  "class_hours vhs =
     (vhs \<noteq> [] \<and> 0 \<le> hd vhs \<and> hd vhs \<le> 23
      \<and> (\<forall>v \<in> set vhs. (0 \<le> v \<and> v \<le> 23) \<or> v = 24 + hd vhs))"

fun index_of :: "int \<Rightarrow> int list \<Rightarrow> nat option" where
  "index_of x [] = None"
| "index_of x (y # ys) = (if x = y then Some 0 else map_option Suc (index_of x ys))"

definition next_ref_time :: "int list \<Rightarrow> task \<Rightarrow> exc + string" where
  "next_ref_time valid_hours self =
     (let n_times = length valid_hours
      in if n_times = 1 then increment (ref_time self) (Some 24)
         else (case hour_field (ref_time self) of
                 Inl e \<Rightarrow> Inl e
               | Inr h \<Rightarrow>
                   (case index_of h valid_hours of
                      None \<Rightarrow> Inl ValueError
                    | Some i_now \<Rightarrow>
                        if int i_now < int n_times - 1
                        then increment (ref_time self)
                               (Some (valid_hours ! (i_now + 1) - valid_hours ! i_now))
                        else increment (ref_time self)
                               (Some (valid_hours ! 0 + 24 - valid_hours ! i_now)))))"

subsection \<open>Dispatch\<close>

text \<open>
  \<open>dummy_clock_rate\<close> is a number or \<open>None\<close>; it is true when it is a number other
  than 0. \<open>run_external_task\<close> of the base class only logs: no class of the sources
  overrides it.
\<close>

definition run_external_dummy :: "task \<Rightarrow> int \<Rightarrow> effects \<Rightarrow> task \<times> effects" where
  "run_external_dummy self dummy_clock_rate eff =
     (self\<lparr>state := ''running''\<rparr>,
      (logmsg INFO (''launching external dummy for '' @ ref_time self) eff)
        \<lparr>commands := commands eff @
           [''./task_dummy.py '' @ name self @ '' '' @ ref_time self @ '' ''
              @ py_str dummy_clock_rate @ '' &'']\<rparr>)"

definition run_external_task :: "task \<Rightarrow> effects \<Rightarrow> task \<times> effects" where
  "run_external_task self eff =
     (self, logmsg CRITICAL ''task base class run() should not be called'' eff)"

text \<open>
  The first loop of \<open>task_base.run_if_ready\<close>: the first instance of the pool that has
  the name of \<open>self\<close>, is not finished and has a smaller reference time. \<open>int\<close> raises
  \<open>ValueError\<close> on a reference time that is not a number.
\<close>

fun blocked_by :: "task \<Rightarrow> task list \<Rightarrow> exc + task option" where
  "blocked_by self [] = Inr None"
| "blocked_by self (t # tasks) =
     (if name t = name self \<and> state t \<noteq> ''finished'' then
        (case py_int (ref_time t) of
           Inl e \<Rightarrow> Inl e
         | Inr a \<Rightarrow>
             (case py_int (ref_time self) of
                Inl e \<Rightarrow> Inl e
              | Inr b \<Rightarrow> if a < b then Inr (Some t) else blocked_by self tasks))
      else blocked_by self tasks)"

definition task_base_run_if_ready ::
    "task \<Rightarrow> task list \<Rightarrow> int option \<Rightarrow> effects \<Rightarrow> (exc + task) \<times> effects" where
  "task_base_run_if_ready self tasks dummy_clock_rate eff =
     (case blocked_by self tasks of
        Inl e \<Rightarrow> (Inl e, eff)
      | Inr (Some t) \<Rightarrow> (Inr self, logmsg DEBUG (identity self @ '' blocked by '' @ identity t) eff)
      | Inr None \<Rightarrow>
          if state self = ''finished'' then (Inr self, eff)
          else if state self = ''running'' then (Inr self, eff)
          else if all_satisfied (prerequisites self) then
            (case dummy_clock_rate of
               None \<Rightarrow> (case run_external_task self eff of (s, e) \<Rightarrow> (Inr s, e))
             | Some r \<Rightarrow>
                 if r \<noteq> 0 then (case run_external_dummy self r eff of (s, e) \<Rightarrow> (Inr s, e))
                 else (case run_external_task self eff of (s, e) \<Rightarrow> (Inr s, e)))
          else (Inr self, eff))"

definition old_and_finished :: "task \<Rightarrow> task list \<Rightarrow> string list" where
  "old_and_finished self tasks =
     map ref_time (filter (\<lambda>t. name t = name self \<and> state t = ''finished'') tasks)"

definition runahead_run_if_ready ::
    "task \<Rightarrow> task list \<Rightarrow> int option \<Rightarrow> effects \<Rightarrow> (exc + task) \<times> effects" where
  "runahead_run_if_ready self tasks dummy_clock_rate eff =
     (let delay = (state self = ''waiting'' \<and> length (old_and_finished self tasks) \<ge> MAX_FINISHED)
      in if delay then (Inr self, eff)
         else task_base_run_if_ready self tasks dummy_clock_rate eff)"

definition run_if_ready ::
    "task \<Rightarrow> task list \<Rightarrow> int option \<Rightarrow> effects \<Rightarrow> (exc + task) \<times> effects" where
  "run_if_ready self tasks dummy_clock_rate eff =
     (case kind self of
        Standard \<Rightarrow> task_base_run_if_ready self tasks dummy_clock_rate eff
      | Runahead \<Rightarrow> runahead_run_if_ready self tasks dummy_clock_rate eff)"

subsection \<open>Other methods\<close>

definition set_finished :: "task \<Rightarrow> task" where
  "set_finished self = self\<lparr>state := ''finished''\<rparr>"

definition abdicate :: "task \<Rightarrow> bool \<times> task" where
  "abdicate self =
     (if state self = ''finished'' \<and> \<not> abdicated self then (True, self\<lparr>abdicated := True\<rparr>)
      else (False, self))"

definition get_satisfaction :: "task \<Rightarrow> task list \<Rightarrow> task" where
  "get_satisfaction self tasks =
     self\<lparr>prerequisites := foldl (\<lambda>p t. satisfy_me p (postrequisites t)) (prerequisites self) tasks\<rparr>"

definition is_complete :: "task \<Rightarrow> bool" where
  "is_complete self = all_satisfied (postrequisites self)"

definition incoming :: "task \<Rightarrow> string \<Rightarrow> string \<Rightarrow> effects \<Rightarrow> task \<times> effects" where
  "incoming self priority message eff =
     (let eff1 = eff\<lparr>processing_required := True\<rparr>;
          self1 = self\<lparr>latest_message := message\<rparr>;
          eff2 = (if state self1 \<noteq> ''running''
                  then logmsg WARNING (''MESSAGE FROM NON-RUNNING TASK: '' @ message) eff1
                  else eff1);
          (self2, eff3) =
            (if requisite_exists (postrequisites self1) message then
               (let eff2a = (if is_satisfied (postrequisites self1) message
                             then logmsg WARNING (''POSTREQUISITE ALREADY SATISFIED: '' @ message) eff2
                             else eff2)
                in (self1\<lparr>postrequisites := set_satisfied (postrequisites self1) message\<rparr>,
                    logmsg INFO message eff2a))
             else
               (self1,
                if priority = ''NORMAL'' then logmsg INFO message eff2
                else if priority = ''WARNING'' then logmsg WARNING message eff2
                else if priority = ''CRITICAL'' then logmsg CRITICAL message eff2
                else logmsg WARNING message eff2))
      in if all_satisfied (postrequisites self2) then (set_finished self2, eff3)
         else (self2, eff3))"

text \<open>
  What \<open>incoming\<close> does to the postrequisites: the message is marked satisfied when it
  names one of them.
\<close>

definition post_after :: "requisites \<Rightarrow> string \<Rightarrow> requisites" where
  "post_after rs m = (if requisite_exists rs m then set_satisfied rs m else rs)"

text \<open>
  A sequence of calls on one instance. A call of \<open>run_if_ready\<close> that raises leaves the
  instance as it was. The first component collects what the calls of \<open>abdicate\<close> returned.
\<close>

datatype call =
    Abdicate
  | Incoming string string
  | RunIfReady "task list" "int option"
  | GetSatisfaction "task list"
  | SetFinished

fun do_call :: "call \<Rightarrow> task \<times> effects \<Rightarrow> bool list \<times> task \<times> effects" where
  "do_call Abdicate (t, eff) = (case abdicate t of (r, t') \<Rightarrow> ([r], t', eff))"
| "do_call (Incoming p m) (t, eff) = (case incoming t p m eff of (t', eff') \<Rightarrow> ([], t', eff'))"
| "do_call (RunIfReady tasks rate) (t, eff) =
     (case run_if_ready t tasks rate eff of
        (Inl e, eff') \<Rightarrow> ([], t, eff')
      | (Inr t', eff') \<Rightarrow> ([], t', eff'))"
| "do_call (GetSatisfaction tasks) (t, eff) = ([], get_satisfaction t tasks, eff)"
| "do_call SetFinished (t, eff) = ([], set_finished t, eff)"

fun do_calls :: "call list \<Rightarrow> task \<times> effects \<Rightarrow> bool list \<times> task \<times> effects" where
  "do_calls [] te = ([], te)"
| "do_calls (c # cs) te =
     (case do_call c te of (rs, te') \<Rightarrow> (case do_calls cs te' of (rs', te'') \<Rightarrow> (rs @ rs', te'')))"

subsection \<open>Two classes of the suite\<close>

text \<open>
  \<open>nztide\<close> derives from \<open>runahead_task_base\<close> and \<open>ricom\<close> from \<open>task_base\<close>; both have
  \<open>valid_hours = [6, 18]\<close>. Each constructor adjusts the reference time, sets the requisites
  and then runs the base constructor. The list \<open>valid_hours\<close> of the class goes in and comes
  out, as \<open>nearest_ref_time\<close> appends to it.
\<close>

definition nztide_init ::
    "int list \<Rightarrow> string \<Rightarrow> string option \<Rightarrow> effects \<Rightarrow> ((exc + task) \<times> effects) \<times> int list" where
  "nztide_init valid_hours ref_time0 initial_state eff =
     (case nearest_ref_time valid_hours ref_time0 of
        (Inl e, vhs) \<Rightarrow> ((Inl e, eff), vhs)
      | (Inr rt, vhs) \<Rightarrow>
          (runahead_task_base_init
             \<lparr> kind = Runahead, name = ''nztide'', ref_time = rt, state = [],
               prerequisites = new_requisites [],
               postrequisites = new_requisites
                 [''nztide'' @ '' started for '' @ rt,
                  ''file nztide_'' @ rt @ ''.nc ready'',
                  ''nztide'' @ '' finished for '' @ rt],
               latest_message = [], abdicated = False \<rparr>
             initial_state eff, vhs))"

definition ricom_init ::
    "int list \<Rightarrow> string \<Rightarrow> string option \<Rightarrow> effects \<Rightarrow> ((exc + task) \<times> effects) \<times> int list" where
  "ricom_init valid_hours ref_time0 initial_state eff =
     (case nearest_ref_time valid_hours ref_time0 of
        (Inl e, vhs) \<Rightarrow> ((Inl e, eff), vhs)
      | (Inr rt, vhs) \<Rightarrow>
          (task_base_init
             \<lparr> kind = Standard, name = ''ricom'', ref_time = rt, state = [],
               prerequisites = new_requisites [''file sls_'' @ rt @ ''.nc ready''],
               postrequisites = new_requisites
                 [''ricom'' @ '' started for '' @ rt,
                  ''file ricom_'' @ rt @ ''.nc ready'',
                  ''ricom'' @ '' finished for '' @ rt],
               latest_message = [], abdicated = False \<rparr>
             initial_state eff, vhs))"

definition no_effects :: effects where
  "no_effects = \<lparr> processing_required = False, log = [], commands = [] \<rparr>"

text \<open>
  Instances as these constructors and the messages of their jobs leave them: \<open>ricom\<close> for
  06Z with its job started, the same with only its last postrequisite open, \<open>ricom\<close> for 18Z
  constructed in state \<open>ready\<close>, and \<open>nztide\<close> for a reference time, in a given state, with
  every postrequisite satisfied or none.
\<close>

definition ricom_06_running :: task where
  "ricom_06_running =
     \<lparr> kind = Standard, name = ''ricom'', ref_time = ''2011010106'', state = ''running'',
       prerequisites = [(''file sls_2011010106.nc ready'', True)],
       postrequisites = [(''ricom started for 2011010106'', True),
                         (''file ricom_2011010106.nc ready'', False),
                         (''ricom finished for 2011010106'', False)],
       latest_message = ''ricom started for 2011010106'', abdicated = False \<rparr>"

definition ricom_18_ready :: task where
  "ricom_18_ready =
     \<lparr> kind = Standard, name = ''ricom'', ref_time = ''2011010118'', state = ''waiting'',
       prerequisites = [(''file sls_2011010118.nc ready'', True)],
       postrequisites = [(''ricom started for 2011010118'', False),
                         (''file ricom_2011010118.nc ready'', False),
                         (''ricom finished for 2011010118'', False)],
       latest_message = [], abdicated = False \<rparr>"

definition ricom_06_closing :: task where
  "ricom_06_closing =
     ricom_06_running\<lparr>postrequisites := [(''ricom started for 2011010106'', True),
                                          (''file ricom_2011010106.nc ready'', True),
                                          (''ricom finished for 2011010106'', False)]\<rparr>"

definition nztide_at :: "string \<Rightarrow> string \<Rightarrow> bool \<Rightarrow> task" where
  "nztide_at rt st done =
     \<lparr> kind = Runahead, name = ''nztide'', ref_time = rt, state = st,
       prerequisites = [],
       postrequisites = [(''nztide started for '' @ rt, done),
                         (''file nztide_'' @ rt @ ''.nc ready'', done),
                         (''nztide finished for '' @ rt, done)],
       latest_message = [], abdicated = False \<rparr>"

section \<open>The job status file (lib/cylc/task_message.py)\<close>

text \<open>
  \<open>TaskMessage._update_job_status_file\<close> reads the environment variable
  \<open>CYLC_TASK_LOG_ROOT\<close>, the parent process id and the files. \<open>msg_env\<close> holds what one
  call reads beside the files: the attributes \<open>severity\<close> and \<open>true_event_time\<close> of the
  object, the environment variable, the process id, and the two constants
  \<open>TASK_OUTPUT_STARTED\<close> and \<open>TASK_OUTPUT_SUCCEEDED\<close> of \<open>cylc.task_outputs\<close>, which is
  not part of the sources. The files are a map from path to content, with the paths whose
  \<open>open\<close> raises \<open>IOError\<close>.
\<close>

record msg_env =
  severity :: string
  true_event_time :: string
  cylc_task_log_root :: "string option"
  ppid :: int
  TASK_OUTPUT_STARTED :: string
  TASK_OUTPUT_SUCCEEDED :: string

record file_system =
  files :: "string \<rightharpoonup> string"
  io_error :: "string \<Rightarrow> bool"

definition CYLC_JOB_PID :: string where "CYLC_JOB_PID = ''CYLC_JOB_PID''"
definition CYLC_JOB_INIT_TIME :: string where "CYLC_JOB_INIT_TIME = ''CYLC_JOB_INIT_TIME''"
definition CYLC_JOB_EXIT :: string where "CYLC_JOB_EXIT = ''CYLC_JOB_EXIT''"
definition CYLC_JOB_EXIT_TIME :: string where "CYLC_JOB_EXIT_TIME = ''CYLC_JOB_EXIT_TIME''"
definition CYLC_MESSAGE :: string where "CYLC_MESSAGE = ''CYLC_MESSAGE''"

definition ABORT_MESSAGE_PREFIX :: string where
  "ABORT_MESSAGE_PREFIX = ''Task job script aborted with ''"
definition FAIL_MESSAGE_PREFIX :: string where
  "FAIL_MESSAGE_PREFIX = ''Task job script received signal ''"
definition VACATION_MESSAGE_PREFIX :: string where
  "VACATION_MESSAGE_PREFIX = ''Task job script vacated by signal ''"

definition newline :: char where
  "newline = CHR 0x0A"

definition startswith :: "string \<Rightarrow> string \<Rightarrow> bool" where
  "startswith s p = (take (length p) s = p)"

definition upper_char :: "char \<Rightarrow> char" where
  "upper_char c =
     (if 97 \<le> (of_char c :: nat) \<and> (of_char c :: nat) \<le> 122 then char_of (of_char c - 32 :: nat) else c)"

definition upper :: "string \<Rightarrow> string" where
  "upper s = map upper_char s"

text \<open>Iterating over a file gives its lines, each with its newline; the last may have none.\<close>

fun file_lines :: "string \<Rightarrow> string list" where
  "file_lines [] = []"
| "file_lines (c # cs) =
     (if c = newline then [c] # file_lines cs
      else (case file_lines cs of [] \<Rightarrow> [[c]] | l # ls \<Rightarrow> (c # l) # ls))"

text \<open>\<open>"%s=%s\n" % (k, v)\<close> and \<open>"%s=%s|%s|%s\n" % (k, t, s, m)\<close>.\<close>

definition key_value :: "string \<Rightarrow> string \<Rightarrow> string" where
  "key_value k v = k @ ''='' @ v @ [newline]"

definition message_record :: "msg_env \<Rightarrow> string \<Rightarrow> string" where
  "message_record env message =
     CYLC_MESSAGE @ ''='' @ true_event_time env @ ''|'' @ severity env @ ''|'' @ message @ [newline]"

text \<open>
  One round of the loop over \<open>messages\<close>, on the content of the status file. The file is
  open for appending, so a write adds to the end; the vacation branch closes the file, reads
  its lines, and writes the file anew.
\<close>

definition write_message :: "msg_env \<Rightarrow> string \<Rightarrow> string \<Rightarrow> string" where
  "write_message env content message =
     (if message = TASK_OUTPUT_STARTED env then
        (let job_id = ppid env;
             c1 = (if job_id > 1 then content @ key_value CYLC_JOB_PID (py_str job_id) else content)
         in c1 @ key_value CYLC_JOB_INIT_TIME (true_event_time env))
      else if message = TASK_OUTPUT_SUCCEEDED env then
        content @ key_value CYLC_JOB_EXIT (upper (TASK_OUTPUT_SUCCEEDED env))
                @ key_value CYLC_JOB_EXIT_TIME (true_event_time env)
      else if startswith message FAIL_MESSAGE_PREFIX then
        content @ key_value CYLC_JOB_EXIT (drop (length FAIL_MESSAGE_PREFIX) message)
                @ key_value CYLC_JOB_EXIT_TIME (true_event_time env)
      else if startswith message ABORT_MESSAGE_PREFIX then
        content @ key_value CYLC_JOB_EXIT (drop (length ABORT_MESSAGE_PREFIX) message)
                @ key_value CYLC_JOB_EXIT_TIME (true_event_time env)
      else if startswith message VACATION_MESSAGE_PREFIX then
        (let lines = filter (\<lambda>line. \<not> startswith line ''CYLC_JOB_'') (file_lines content)
         in concat lines @ message_record env message)
      else content @ message_record env message)"

text \<open>
  Opening a file for appending creates it when it does not exist: a missing file reads as
  the empty content. A line is complete when it ends with its newline and has no other.
\<close>

definition file_content :: "file_system \<Rightarrow> string \<Rightarrow> string" where
  "file_content fs path = (case files fs path of None \<Rightarrow> [] | Some c \<Rightarrow> c)"

definition complete_line :: "string \<Rightarrow> bool" where
  "complete_line l = (l \<noteq> [] \<and> last l = newline \<and> newline \<notin> set (butlast l))"

definition update_job_status_file :: "msg_env \<Rightarrow> string list \<Rightarrow> file_system \<Rightarrow> file_system" where
  "update_job_status_file env messages fs =
     (case cylc_task_log_root env of
        None \<Rightarrow> fs
      | Some job_log_name \<Rightarrow>
          if job_log_name = [] then fs
          else (let path = job_log_name @ ''.status''
                in if io_error fs path then fs
                   else (let content = file_content fs path
                         in fs\<lparr>files := (files fs)(path \<mapsto> foldl (write_message env) content messages)\<rparr>)))"

text \<open>The environment of a job and a status file as the start of the job leaves it.\<close>

definition job_env :: msg_env where
  "job_env = \<lparr> severity = ''CRITICAL'', true_event_time = ''2018-01-01T00:00:05Z'',
               cylc_task_log_root = Some ''/run/log/job/1/foo/01/job'', ppid = 4321,
               TASK_OUTPUT_STARTED = ''started'', TASK_OUTPUT_SUCCEEDED = ''succeeded'' \<rparr>"

definition job_files :: file_system where
  "job_files =
     \<lparr> files = Map.empty(''/run/log/job/1/foo/01/job.status'' \<mapsto>
                 ''CYLC_BATCH_SYS_NAME=background'' @ [newline]
                 @ ''CYLC_JOB_PID=4321'' @ [newline]
                 @ ''CYLC_JOB_INIT_TIME=2018-01-01T00:00:00Z'' @ [newline]),
       io_error = (\<lambda>p. False) \<rparr>"

section \<open>Facts about \<open>str\<close> and \<open>int\<close>\<close>

lemma is_digit_digit_char: "d < 10 \<Longrightarrow> is_digit (digit_char d)"
  by (simp add: is_digit_def digit_char_def)

lemma digit_val_digit_char: "d < 10 \<Longrightarrow> digit_val (digit_char d) = d"
  by (simp add: digit_val_def digit_char_def)

lemma not_space_digit: "is_digit c \<Longrightarrow> \<not> is_space c"
  by (auto simp add: is_digit_def is_space_def)

lemma digit_not_sign: "is_digit c \<Longrightarrow> c \<noteq> CHR ''-'' \<and> c \<noteq> CHR ''+''"
  by (auto simp add: is_digit_def)

lemma digits_of_all_digits: "\<forall>c \<in> set (digits_of n). is_digit c"
proof (induction n rule: digits_of.induct)
  case (1 n)
  show ?case
  proof (cases "n < 10")
    case True
    then show ?thesis by (simp add: digits_of.simps [of n] is_digit_digit_char)
  next
    case False
    with 1 show ?thesis by (simp add: digits_of.simps [of n] is_digit_digit_char)
  qed
qed

lemma digits_of_nonempty: "digits_of n \<noteq> []"
  by (subst digits_of.simps) simp

lemma digits_val_snoc: "digits_val (ds @ [c]) = 10 * digits_val ds + digit_val c"
  by (simp add: digits_val_def)

lemma digits_val_digits_of: "digits_val (digits_of n) = n"
proof (induction n rule: digits_of.induct)
  case (1 n)
  show ?case
  proof (cases "n < 10")
    case True
    then show ?thesis by (simp add: digits_of.simps [of n] digits_val_def digit_val_digit_char)
  next
    case False
    with 1 show ?thesis
      by (simp add: digits_of.simps [of n] digits_val_snoc digit_val_digit_char)
  qed
qed

lemma py_int_digits:
  assumes "ds \<noteq> []" "\<forall>c \<in> set ds. is_digit c"
  shows "py_int ds = Inr (int (digits_val ds))"
proof -
  obtain c r where ds: "ds = c # r" using assms(1) by (cases ds) auto
  have c: "is_digit c" using assms(2) ds by simp
  have tw: "takeWhile is_digit ds = ds" "dropWhile is_digit ds = []"
    using assms(2) by simp_all
  have sp: "dropWhile is_space ds = ds"
    using c ds not_space_digit by simp
  have s2: "(case ds of [] \<Rightarrow> ds | c # r \<Rightarrow> if c = CHR ''-'' \<or> c = CHR ''+'' then r else ds) = ds"
    using digit_not_sign [OF c] by (simp add: ds)
  have ng: "(case ds of [] \<Rightarrow> False | c # x \<Rightarrow> c = CHR ''-'') = False"
    using digit_not_sign [OF c] by (simp add: ds)
  show ?thesis
    unfolding py_int_def Let_def sp s2 ng
    by (simp add: tw sp assms(1))
qed

lemma py_int_neg_digits:
  assumes "ds \<noteq> []" "\<forall>c \<in> set ds. is_digit c"
  shows "py_int (CHR ''-'' # ds) = Inr (- int (digits_val ds))"
proof -
  obtain c r where ds: "ds = c # r" using assms(1) by (cases ds) auto
  have c: "is_digit c" using assms(2) ds by simp
  have tw: "takeWhile is_digit ds = ds" "dropWhile is_digit ds = []"
    using assms(2) by simp_all
  have sp: "dropWhile is_space ds = ds"
    using c ds not_space_digit by simp
  have m: "\<not> is_space CHR ''-''" by (simp add: is_space_def)
  show ?thesis
    unfolding py_int_def Let_def
    by (simp add: tw sp m assms(1))
qed

lemma py_int_py_str: "py_int (py_str i) = Inr i"
  by (simp add: py_str_def py_int_digits py_int_neg_digits digits_of_nonempty
      digits_of_all_digits digits_val_digits_of)

section \<open>The asynchronous cycler: round trip\<close>

text \<open>
  C10, as stated, at the tag \<open>007\<close>: the tag denotes the integer 7, \<open>next\<close> gives \<open>8\<close>, and
  \<open>offset\<close> of that by 1 gives \<open>7\<close>, which is not the tag.
\<close>

theorem async_round_trip_counterexample:
  "py_int ''007'' = Inr 7 \<and> async_next ''007'' = Inr ''8''
   \<and> async_offset ''8'' (PyInt 1) = Inr ''7'' \<and> ''7'' \<noteq> ''007''"
  by code_simp

text \<open>
  C10, amended: \<open>valid\<close> is true and \<open>initial_adjust_up\<close> returns the tag, for every tag. For
  a tag that \<open>int\<close> reads as the integer \<open>n\<close>, \<open>next\<close> returns the decimal string of \<open>n + 1\<close>,
  and \<open>offset\<close> of that string by 1 returns the decimal string of \<open>n\<close>, which is the tag
  exactly when \<open>tag = str(int(tag))\<close>.
\<close>

theorem async_next_offset:
  "async_valid tag
   \<and> async_initial_adjust_up tag = tag
   \<and> (py_int tag = Inr n \<longrightarrow>
         async_next tag = Inr (py_str (n + 1))
         \<and> async_offset (py_str (n + 1)) (PyInt 1) = Inr (py_str n)
         \<and> (async_offset (py_str (n + 1)) (PyInt 1) = Inr tag \<longleftrightarrow> tag = py_str n))"
  by (auto simp add: async_next_def async_offset_def py_int_py_str async_valid_def
      async_initial_adjust_up_def)

theorem async_next_offset_witness:
  "py_int ''41'' = Inr 41 \<and> async_next ''41'' = Inr ''42''
   \<and> async_offset ''42'' (PyInt 1) = Inr ''41''
   \<and> async_valid ''41'' \<and> async_initial_adjust_up ''41'' = ''41''"
proof -
  have h: "py_int ''41'' = Inr 41" by code_simp
  have s1: "py_str (41 + 1) = ''42''" by code_simp
  have s2: "py_str 41 = ''41''" by code_simp
  show ?thesis using async_next_offset [of "''41''" 41] h by (simp only: s1 s2)
qed

section \<open>Dispatch: serial within a class, and the runahead limit\<close>

lemmas py_int_eval = py_int_def Let_def is_space_def is_digit_def digits_val_def digit_val_def

lemma if_Inl_ValueError: "(if c then Inl ValueError else Inr x) = Inl e \<Longrightarrow> e = ValueError"
  by (cases c) simp_all

lemma py_int_error: "py_int s = Inl e \<Longrightarrow> e = ValueError"
  unfolding py_int_def Let_def by (rule if_Inl_ValueError)

lemma blocked_by_error: "blocked_by self tasks = Inl e \<Longrightarrow> e = ValueError"
  by (induction tasks) (auto split: if_splits sum.splits dest: py_int_error)

lemma blocked_by_found:
  assumes "A \<in> set tasks" "name A = name B" "state A \<noteq> ''finished''"
    "py_int (ref_time A) = Inr a" "py_int (ref_time B) = Inr b" "a < b"
  shows "blocked_by B tasks \<noteq> Inr None"
  using assms(1)
proof (induction tasks)
  case Nil
  then show ?case by simp
next
  case (Cons t tasks)
  show ?case
  proof (cases "t = A")
    case True
    then show ?thesis using assms(2-6) by simp
  next
    case False
    with Cons have "blocked_by B tasks \<noteq> Inr None" by simp
    then show ?thesis by (simp add: assms(5) split: sum.splits)
  qed
qed

lemma blocked_by_numeric:
  assumes "\<forall>t \<in> set tasks. \<exists>n. py_int (ref_time t) = Inr n" "py_int (ref_time B) = Inr b"
  shows "\<exists>r. blocked_by B tasks = Inr r"
  using assms(1)
proof (induction tasks)
  case Nil
  then show ?case by simp
next
  case (Cons t tasks)
  then obtain n where n: "py_int (ref_time t) = Inr n" by auto
  from Cons obtain r where "blocked_by B tasks = Inr r" by auto
  then show ?case by (simp add: n assms(2))
qed

lemma task_base_run_if_ready_blocked:
  assumes "A \<in> set tasks" "name A = name B" "state A \<noteq> ''finished''"
    "py_int (ref_time A) = Inr a" "py_int (ref_time B) = Inr b" "a < b"
  shows "commands (snd (task_base_run_if_ready B tasks rate eff)) = commands eff
       \<and> (fst (task_base_run_if_ready B tasks rate eff) = Inr B
          \<or> fst (task_base_run_if_ready B tasks rate eff) = Inl ValueError)
       \<and> ((\<forall>t \<in> set tasks. \<exists>n. py_int (ref_time t) = Inr n)
            \<longrightarrow> fst (task_base_run_if_ready B tasks rate eff) = Inr B)"
proof (cases "blocked_by B tasks")
  case (Inl e)
  then have e: "e = ValueError" by (rule blocked_by_error)
  have "\<not> (\<forall>t \<in> set tasks. \<exists>n. py_int (ref_time t) = Inr n)"
    using blocked_by_numeric [of tasks B b] assms(5) Inl by auto
  then show ?thesis using Inl e by (simp add: task_base_run_if_ready_def)
next
  case (Inr r)
  then obtain t where "r = Some t" using blocked_by_found [OF assms] by (cases r) auto
  then show ?thesis using Inr by (simp add: task_base_run_if_ready_def logmsg_def)
qed

text \<open>
  C1: let \<open>A\<close> be in the pool, of the class of \<open>B\<close>, not finished, with a reference time
  that is numerically smaller than that of \<open>B\<close>. Then \<open>B.run_if_ready\<close> passes no command
  to \<open>os.system\<close> and leaves \<open>B\<close> as it is: it returns with \<open>B\<close> unchanged, and it does return
  when every reference time in the pool is a number (otherwise \<open>int\<close> may raise
  \<open>ValueError\<close> before \<open>A\<close> is reached, which changes nothing either).
\<close>

theorem run_if_ready_blocked:
  assumes "A \<in> set tasks" "name A = name B" "state A \<noteq> ''finished''"
    "py_int (ref_time A) = Inr a" "py_int (ref_time B) = Inr b" "a < b"
  shows "commands (snd (run_if_ready B tasks rate eff)) = commands eff
       \<and> (fst (run_if_ready B tasks rate eff) = Inr B
          \<or> fst (run_if_ready B tasks rate eff) = Inl ValueError)
       \<and> ((\<forall>t \<in> set tasks. \<exists>n. py_int (ref_time t) = Inr n)
            \<longrightarrow> fst (run_if_ready B tasks rate eff) = Inr B)"
  using task_base_run_if_ready_blocked [OF assms, of rate eff]
  by (cases "kind B") (simp_all add: run_if_ready_def runahead_run_if_ready_def Let_def)

theorem run_if_ready_blocked_witness:
  "ricom_06_running \<in> set [ricom_06_running, ricom_18_ready]
   \<and> name ricom_06_running = name ricom_18_ready
   \<and> state ricom_06_running \<noteq> ''finished''
   \<and> py_int (ref_time ricom_06_running) = Inr 2011010106
   \<and> py_int (ref_time ricom_18_ready) = Inr 2011010118
   \<and> (2011010106 :: int) < 2011010118
   \<and> all_satisfied (prerequisites ricom_18_ready)
   \<and> fst (run_if_ready ricom_18_ready [ricom_06_running, ricom_18_ready] (Some 10) no_effects)
       = Inr ricom_18_ready
   \<and> commands (snd (run_if_ready ricom_18_ready [ricom_06_running, ricom_18_ready] (Some 10) no_effects))
       = []"
proof -
  have h1: "ricom_06_running \<in> set [ricom_06_running, ricom_18_ready]" by simp
  have h2: "name ricom_06_running = name ricom_18_ready"
    by (simp add: ricom_06_running_def ricom_18_ready_def)
  have h3: "state ricom_06_running \<noteq> ''finished''" by (simp add: ricom_06_running_def)
  have h4: "py_int (ref_time ricom_06_running) = Inr 2011010106"
    by (simp add: ricom_06_running_def py_int_eval)
  have h5: "py_int (ref_time ricom_18_ready) = Inr 2011010118"
    by (simp add: ricom_18_ready_def py_int_eval)
  have h6: "(2011010106 :: int) < 2011010118" by simp
  have h7: "\<forall>t \<in> set [ricom_06_running, ricom_18_ready]. \<exists>n. py_int (ref_time t) = Inr n"
    using h4 h5 by simp
  have h8: "all_satisfied (prerequisites ricom_18_ready)"
    by (simp add: ricom_18_ready_def all_satisfied_def)
  have c: "commands no_effects = []" by (simp add: no_effects_def)
  show ?thesis
    using run_if_ready_blocked [OF h1 h2 h3 h4 h5 h6, of "Some 10" no_effects] h1 h2 h3 h4 h5 h7 h8 c
    by simp
qed

text \<open>
  C2: for an instance of a runahead-limited class in state \<open>waiting\<close>, \<open>MAX_FINISHED\<close> is 4;
  when the pool holds at least \<open>MAX_FINISHED\<close> finished instances of the class,
  \<open>run_if_ready\<close> returns with the instance and the effects unchanged, whatever its
  prerequisites; and when \<open>run_if_ready\<close> leaves the instance \<open>running\<close>, the pool holds fewer
  than \<open>MAX_FINISHED\<close> finished instances of the class.
\<close>

theorem runahead_held_when_too_far_ahead:
  assumes "kind self = Runahead" "state self = ''waiting''"
  shows "MAX_FINISHED = 4
       \<and> (MAX_FINISHED \<le> length (filter (\<lambda>t. name t = name self \<and> state t = ''finished'') tasks)
            \<longrightarrow> run_if_ready self tasks rate eff = (Inr self, eff))
       \<and> (\<forall>self'. fst (run_if_ready self tasks rate eff) = Inr self' \<and> state self' = ''running''
            \<longrightarrow> length (filter (\<lambda>t. name t = name self \<and> state t = ''finished'') tasks) < MAX_FINISHED)"
proof -
  let ?n = "length (filter (\<lambda>t. name t = name self \<and> state t = ''finished'') tasks)"
  have hold: "run_if_ready self tasks rate eff = (Inr self, eff)" if "MAX_FINISHED \<le> ?n"
    using assms that by (simp add: run_if_ready_def runahead_run_if_ready_def old_and_finished_def)
  have only: "?n < MAX_FINISHED"
    if "fst (run_if_ready self tasks rate eff) = Inr self'" "state self' = ''running''" for self'
  proof (rule ccontr)
    assume "\<not> ?n < MAX_FINISHED"
    then have "run_if_ready self tasks rate eff = (Inr self, eff)" using hold by simp
    with that have "state self = ''running''" by simp
    with assms(2) show False by simp
  qed
  show ?thesis using hold only by (simp add: MAX_FINISHED_def)
qed

theorem runahead_held_when_too_far_ahead_witness:
  "kind (nztide_at ''2011010306'' ''waiting'' False) = Runahead
   \<and> state (nztide_at ''2011010306'' ''waiting'' False) = ''waiting''
   \<and> all_satisfied (prerequisites (nztide_at ''2011010306'' ''waiting'' False))
   \<and> run_if_ready (nztide_at ''2011010306'' ''waiting'' False)
        [nztide_at ''2011010106'' ''finished'' True, nztide_at ''2011010118'' ''finished'' True,
         nztide_at ''2011010206'' ''finished'' True, nztide_at ''2011010218'' ''finished'' True,
         nztide_at ''2011010306'' ''waiting'' False] (Some 10) no_effects
       = (Inr (nztide_at ''2011010306'' ''waiting'' False), no_effects)
   \<and> fst (run_if_ready (nztide_at ''2011010306'' ''waiting'' False)
        [nztide_at ''2011010306'' ''waiting'' False] (Some 10) no_effects)
       = Inr (nztide_at ''2011010306'' ''running'' False)
   \<and> length (filter (\<lambda>t. name t = name (nztide_at ''2011010306'' ''waiting'' False)
                            \<and> state t = ''finished'')
        [nztide_at ''2011010306'' ''waiting'' False]) < MAX_FINISHED"
proof -
  let ?self = "nztide_at ''2011010306'' ''waiting'' False"
  let ?pool = "[nztide_at ''2011010106'' ''finished'' True, nztide_at ''2011010118'' ''finished'' True,
         nztide_at ''2011010206'' ''finished'' True, nztide_at ''2011010218'' ''finished'' True, ?self]"
  have k: "kind ?self = Runahead" by (simp add: nztide_at_def)
  have s: "state ?self = ''waiting''" by (simp add: nztide_at_def)
  have p: "all_satisfied (prerequisites ?self)" by (simp add: nztide_at_def all_satisfied_def)
  have n: "MAX_FINISHED \<le> length (filter (\<lambda>t. name t = name ?self \<and> state t = ''finished'') ?pool)"
    by (simp add: nztide_at_def MAX_FINISHED_def)
  have held: "run_if_ready ?self ?pool (Some 10) no_effects = (Inr ?self, no_effects)"
    using runahead_held_when_too_far_ahead [OF k s, of ?pool "Some 10" no_effects] n by simp
  have run: "fst (run_if_ready ?self [?self] (Some 10) no_effects)
      = Inr (nztide_at ''2011010306'' ''running'' False)"
    by (simp add: run_if_ready_def runahead_run_if_ready_def old_and_finished_def
        task_base_run_if_ready_def run_external_dummy_def nztide_at_def all_satisfied_def
        MAX_FINISHED_def py_int_eval)
  have r: "state (nztide_at ''2011010306'' ''running'' False) = ''running''"
    by (simp add: nztide_at_def)
  have few: "length (filter (\<lambda>t. name t = name ?self \<and> state t = ''finished'') [?self])
      < MAX_FINISHED"
    using runahead_held_when_too_far_ahead [OF k s, of "[?self]" "Some 10" no_effects] run r
    by blast
  show ?thesis using k s p held run few by simp
qed

section \<open>State and postrequisites\<close>

lemma incoming_fst:
  "fst (incoming self p m eff) =
     self\<lparr>latest_message := m,
          postrequisites := post_after (postrequisites self) m,
          state := (if all_satisfied (post_after (postrequisites self) m) then ''finished''
                    else state self)\<rparr>"
  by (simp add: incoming_def Let_def set_finished_def post_after_def)

lemma all_satisfied_set_all: "all_satisfied (set_all_satisfied rs)"
  by (simp add: all_satisfied_def set_all_satisfied_def list_all_iff)

lemma all_satisfied_iff: "all_satisfied rs \<longleftrightarrow> (\<forall>r \<in> set rs. snd r)"
  by (simp add: all_satisfied_def list_all_iff)

lemma all_satisfied_update_mono: "all_satisfied rs \<Longrightarrow> all_satisfied (AList.update k True rs)"
  by (induction rs) (auto simp add: all_satisfied_def)

lemma all_satisfied_post_after_mono: "all_satisfied rs \<Longrightarrow> all_satisfied (post_after rs m)"
  by (simp add: post_after_def set_satisfied_def all_satisfied_update_mono)

lemma all_satisfied_update_distinct:
  "distinct (map fst rs) \<Longrightarrow> k \<in> fst ` set rs \<Longrightarrow>
     all_satisfied (AList.update k True rs) \<longleftrightarrow> (\<forall>r \<in> set rs. snd r \<or> fst r = k)"
proof (induction rs)
  case Nil
  then show ?case by simp
next
  case (Cons r rs)
  obtain a b where r: "r = (a, b)" by (cases r)
  show ?case
  proof (cases "a = k")
    case True
    then have "k \<notin> fst ` set rs" using Cons.prems(1) r by auto
    then have "\<forall>x \<in> set rs. fst x \<noteq> k" by auto
    then show ?thesis using True r by (auto simp add: all_satisfied_def list_all_iff)
  next
    case False
    then have "k \<in> fst ` set rs" using Cons.prems(2) r by auto
    with Cons have "all_satisfied (AList.update k True rs) \<longleftrightarrow> (\<forall>r \<in> set rs. snd r \<or> fst r = k)"
      by simp
    then show ?thesis using False r by (auto simp add: all_satisfied_def)
  qed
qed

lemma all_satisfied_post_after:
  assumes "distinct (map fst rs)"
  shows "all_satisfied (post_after rs m) \<longleftrightarrow> (\<forall>r \<in> set rs. snd r \<or> fst r = m)"
proof (cases "requisite_exists rs m")
  case True
  then have "m \<in> fst ` set rs" by (simp add: requisite_exists_def map_of_eq_None_iff)
  then show ?thesis using True assms
    by (simp add: post_after_def set_satisfied_def all_satisfied_update_distinct)
next
  case False
  then have "m \<notin> fst ` set rs" by (simp add: requisite_exists_def map_of_eq_None_iff)
  then have "\<forall>r \<in> set rs. fst r \<noteq> m" by auto
  then show ?thesis using False by (auto simp add: post_after_def all_satisfied_iff)
qed

lemma task_base_init_cases:
  "fst (task_base_init self ist eff) = Inr self' \<Longrightarrow>
     (state self' = ''waiting'' \<and> postrequisites self' = postrequisites self)
     \<or> (state self' = ''finished'' \<and> postrequisites self' = set_all_satisfied (postrequisites self))"
  by (auto simp add: task_base_init_def Let_def split: option.splits if_splits)

text \<open>
  C3: (construction) when the postrequisites the class sets up are not all satisfied, as
  for every class of the suite, whose lists are not empty, the instance that
  \<open>task_base.__init__\<close> returns is in state \<open>finished\<close> if and only if all its postrequisites
  are satisfied; (messages) when a finished instance has all its postrequisites satisfied,
  then after \<open>incoming\<close> the state is \<open>finished\<close> if and only if all postrequisites are
  satisfied; (transition) a running instance is finished after \<open>incoming\<close> exactly when the
  message leaves no postrequisite unsatisfied, that is, when every postrequisite was
  satisfied already or is the one the message names.
\<close>

theorem finished_iff_postrequisites_all_satisfied:
  "(\<not> all_satisfied (postrequisites self) \<longrightarrow>
      (\<forall>self'. fst (task_base_init self initial_state eff) = Inr self' \<longrightarrow>
         (state self' = ''finished'' \<longleftrightarrow> all_satisfied (postrequisites self'))))
   \<and> ((state self = ''finished'' \<longrightarrow> all_satisfied (postrequisites self)) \<longrightarrow>
         (state (fst (incoming self priority message eff)) = ''finished''
            \<longleftrightarrow> all_satisfied (postrequisites (fst (incoming self priority message eff)))))
   \<and> (state self = ''running'' \<and> distinct (map fst (postrequisites self)) \<longrightarrow>
         (state (fst (incoming self priority message eff)) = ''finished''
            \<longleftrightarrow> (\<forall>r \<in> set (postrequisites self). snd r \<or> fst r = message)))"
proof (intro conjI impI allI)
  fix self'
  assume n: "\<not> all_satisfied (postrequisites self)"
    and i: "fst (task_base_init self initial_state eff) = Inr self'"
  from task_base_init_cases [OF i] show "state self' = ''finished'' \<longleftrightarrow> all_satisfied (postrequisites self')"
    using n by (auto simp add: all_satisfied_set_all)
next
  assume "state self = ''finished'' \<longrightarrow> all_satisfied (postrequisites self)"
  then show "state (fst (incoming self priority message eff)) = ''finished''
      \<longleftrightarrow> all_satisfied (postrequisites (fst (incoming self priority message eff)))"
    by (auto simp add: incoming_fst all_satisfied_post_after_mono)
next
  assume "state self = ''running'' \<and> distinct (map fst (postrequisites self))"
  then show "state (fst (incoming self priority message eff)) = ''finished''
      \<longleftrightarrow> (\<forall>r \<in> set (postrequisites self). snd r \<or> fst r = message)"
    by (simp add: incoming_fst all_satisfied_post_after)
qed

theorem finished_iff_postrequisites_all_satisfied_witness:
  "\<not> all_satisfied (postrequisites ricom_18_ready)
   \<and> fst (task_base_init ricom_18_ready (Some ''waiting'') no_effects) = Inr ricom_18_ready
   \<and> state ricom_18_ready \<noteq> ''finished''
   \<and> state ricom_06_closing = ''running''
   \<and> distinct (map fst (postrequisites ricom_06_closing))
   \<and> state (fst (incoming ricom_06_closing ''NORMAL'' ''ricom finished for 2011010106'' no_effects))
       = ''finished''
   \<and> all_satisfied (postrequisites
        (fst (incoming ricom_06_closing ''NORMAL'' ''ricom finished for 2011010106'' no_effects)))"
proof -
  have n: "\<not> all_satisfied (postrequisites ricom_18_ready)"
    by (simp add: ricom_18_ready_def all_satisfied_def)
  have i: "fst (task_base_init ricom_18_ready (Some ''waiting'') no_effects) = Inr ricom_18_ready"
    by (simp add: task_base_init_def Let_def ricom_18_ready_def)
  have r: "state ricom_06_closing = ''running''"
    by (simp add: ricom_06_closing_def ricom_06_running_def)
  have d: "distinct (map fst (postrequisites ricom_06_closing))"
    by (simp add: ricom_06_closing_def)
  have l: "\<forall>r \<in> set (postrequisites ricom_06_closing).
             snd r \<or> fst r = ''ricom finished for 2011010106''"
    by (simp add: ricom_06_closing_def)
  note t1 = finished_iff_postrequisites_all_satisfied
              [where self = ricom_18_ready and initial_state = "Some ''waiting''" and eff = no_effects]
  note t2 = finished_iff_postrequisites_all_satisfied
              [where self = ricom_06_closing and eff = no_effects and priority = "''NORMAL''"
                 and message = "''ricom finished for 2011010106''"]
  have a: "state ricom_18_ready \<noteq> ''finished''" using t1 n i by blast
  have b: "state (fst (incoming ricom_06_closing ''NORMAL'' ''ricom finished for 2011010106'' no_effects))
       = ''finished''" using t2 r d l by blast
  have c: "all_satisfied (postrequisites
        (fst (incoming ricom_06_closing ''NORMAL'' ''ricom finished for 2011010106'' no_effects)))"
    using t2 r b by simp
  show ?thesis using n i a r d b c by simp
qed

text \<open>
  C6, as stated, for the initial state \<open>running\<close>, which is outside the accepted set: the
  constructor raises \<open>SystemExit(1)\<close>, the exception that ends the process.
\<close>

theorem unknown_initial_state_counterexample:
  "fst (task_base_init ricom_18_ready (Some ''running'') no_effects) = Inl (SystemExit 1)
   \<and> exits_process (SystemExit 1)"
  by (simp add: task_base_init_def Let_def exits_process_def)

text \<open>
  C6, amended: for an initial-state string outside the accepted set (empty, \<open>waiting\<close>,
  \<open>finished\<close>, \<open>ready\<close>) the constructor, of the base class and of the runahead class alike,
  logs one critical record, builds no instance and raises \<open>SystemExit(1)\<close>, which ends the
  process unless a caller catches it. For \<open>None\<close> and the accepted strings it returns an
  instance.
\<close>

theorem unknown_initial_state_exits:
  "(st \<notin> {[], ''waiting'', ''finished'', ''ready''} \<longrightarrow>
      task_base_init self (Some st) eff
        = (Inl (SystemExit 1),
           logmsg CRITICAL (''unknown initial task state: '' @ st)
             (eff\<lparr>processing_required := True\<rparr>))
      \<and> fst (runahead_task_base_init self (Some st) eff) = Inl (SystemExit 1)
      \<and> exits_process (SystemExit 1))
   \<and> (initial_state \<in> {None, Some [], Some ''waiting'', Some ''finished'', Some ''ready''} \<longrightarrow>
      (\<exists>self'. fst (task_base_init self initial_state eff) = Inr self'))"
proof (intro conjI impI)
  assume u: "st \<notin> {[], ''waiting'', ''finished'', ''ready''}"
  then show b: "task_base_init self (Some st) eff
        = (Inl (SystemExit 1),
           logmsg CRITICAL (''unknown initial task state: '' @ st)
             (eff\<lparr>processing_required := True\<rparr>))"
    by (simp add: task_base_init_def Let_def)
  from u have "task_base_init (self\<lparr>kind := Runahead\<rparr>) (Some st) eff
        = (Inl (SystemExit 1),
           logmsg CRITICAL (''unknown initial task state: '' @ st)
             (eff\<lparr>processing_required := True\<rparr>))"
    by (simp add: task_base_init_def Let_def)
  then show "fst (runahead_task_base_init self (Some st) eff) = Inl (SystemExit 1)"
    by (simp add: runahead_task_base_init_def)
  show "exits_process (SystemExit 1)" by (simp add: exits_process_def)
next
  assume "initial_state \<in> {None, Some [], Some ''waiting'', Some ''finished'', Some ''ready''}"
  then show "\<exists>self'. fst (task_base_init self initial_state eff) = Inr self'"
    by (auto simp add: task_base_init_def Let_def)
qed

theorem unknown_initial_state_exits_witness:
  "''bogus'' \<notin> {[], ''waiting'', ''finished'', ''ready''}
   \<and> task_base_init ricom_18_ready (Some ''bogus'') no_effects
        = (Inl (SystemExit 1),
           \<lparr> processing_required = True,
             log = [(CRITICAL, ''unknown initial task state: bogus'')], commands = [] \<rparr>)
   \<and> Some ''ready'' \<in> {None, Some [], Some ''waiting'', Some ''finished'', Some ''ready''}
   \<and> fst (task_base_init ricom_18_ready (Some ''ready'') no_effects) = Inr ricom_18_ready"
proof -
  have h: "''bogus'' \<notin> {[], ''waiting'', ''finished'', ''ready''}"
    by simp
  have g: "Some ''ready'' \<in> {None, Some [], Some ''waiting'', Some ''finished'', Some ''ready''}"
    by simp
  have l: "logmsg CRITICAL (''unknown initial task state: '' @ ''bogus'')
             (no_effects\<lparr>processing_required := True\<rparr>)
           = \<lparr> processing_required = True,
               log = [(CRITICAL, ''unknown initial task state: bogus'')], commands = [] \<rparr>"
    by (simp add: logmsg_def no_effects_def)
  have r: "fst (task_base_init ricom_18_ready (Some ''ready'') no_effects) = Inr ricom_18_ready"
    by (simp add: task_base_init_def Let_def ricom_18_ready_def set_all_satisfied_def)
  have x: "task_base_init ricom_18_ready (Some ''bogus'') no_effects
        = (Inl (SystemExit 1),
           logmsg CRITICAL (''unknown initial task state: '' @ ''bogus'')
             (no_effects\<lparr>processing_required := True\<rparr>))"
    using unknown_initial_state_exits [where st = "''bogus''" and self = ricom_18_ready
        and eff = no_effects] h by blast
  show ?thesis using h g r x by (simp only: l) simp
qed

section \<open>Abdication\<close>

lemma incoming_abdicated: "abdicated (fst (incoming self p m eff)) = abdicated self"
  by (simp add: incoming_fst)

lemma incoming_keeps_finished:
  "state self = ''finished'' \<Longrightarrow> state (fst (incoming self p m eff)) = ''finished''"
  by (simp add: incoming_fst)

lemma task_base_run_if_ready_result:
  "fst (task_base_run_if_ready self tasks rate eff) = Inr self' \<Longrightarrow>
     self' = self \<or> (state self \<noteq> ''finished'' \<and> self' = self\<lparr>state := ''running''\<rparr>)"
  by (auto simp add: task_base_run_if_ready_def run_external_dummy_def run_external_task_def
      split: sum.splits option.splits if_splits)

lemma run_if_ready_result:
  "fst (run_if_ready self tasks rate eff) = Inr self' \<Longrightarrow>
     self' = self \<or> (state self \<noteq> ''finished'' \<and> self' = self\<lparr>state := ''running''\<rparr>)"
  by (cases "kind self")
     (auto simp add: run_if_ready_def runahead_run_if_ready_def Let_def
       dest: task_base_run_if_ready_result split: if_splits)

lemma do_call_step:
  assumes "do_call c (t, eff) = (rs, t', eff')"
  shows "(abdicated t \<longrightarrow> abdicated t' \<and> filter (\<lambda>b. b) rs = [])
       \<and> (filter (\<lambda>b. b) rs \<noteq> [] \<longrightarrow> filter (\<lambda>b. b) rs = [True] \<and> abdicated t')
       \<and> ((abdicated t \<longrightarrow> state t = ''finished'') \<longrightarrow> (abdicated t' \<longrightarrow> state t' = ''finished''))"
proof (cases c)
  case Abdicate
  then show ?thesis using assms by (auto simp add: abdicate_def split: if_splits)
next
  case (Incoming p m)
  then have "t' = fst (incoming t p m eff)" "rs = []"
    using assms by (auto split: prod.splits)
  then show ?thesis by (simp add: incoming_abdicated incoming_keeps_finished)
next
  case (RunIfReady tasks rate)
  obtain r e where re: "run_if_ready t tasks rate eff = (r, e)" by (cases "run_if_ready t tasks rate eff")
  show ?thesis
  proof (cases r)
    case (Inl x)
    then show ?thesis using assms RunIfReady re by simp
  next
    case (Inr u)
    then have "t' = u" "rs = []" using assms RunIfReady re by simp_all
    moreover have "u = t \<or> (state t \<noteq> ''finished'' \<and> u = t\<lparr>state := ''running''\<rparr>)"
      using run_if_ready_result [of t tasks rate eff u] re Inr by simp
    ultimately show ?thesis by auto
  qed
next
  case (GetSatisfaction tasks)
  then show ?thesis using assms by (auto simp add: get_satisfaction_def)
next
  case SetFinished
  then show ?thesis using assms by (auto simp add: set_finished_def)
qed

lemma do_calls_count:
  "do_calls cs (t, eff) = (rs, t', eff') \<Longrightarrow>
     length (filter (\<lambda>b. b) rs) \<le> (if abdicated t then 0 else 1)
     \<and> ((abdicated t \<longrightarrow> state t = ''finished'') \<longrightarrow> (abdicated t' \<longrightarrow> state t' = ''finished''))"
proof (induction cs arbitrary: t eff rs t' eff')
  case Nil
  then show ?case by simp
next
  case (Cons c cs)
  obtain r1 t1 e1 where s1: "do_call c (t, eff) = (r1, t1, e1)" by (cases "do_call c (t, eff)")
  obtain r2 t2 e2 where s2: "do_calls cs (t1, e1) = (r2, t2, e2)" by (cases "do_calls cs (t1, e1)")
  have eq: "rs = r1 @ r2" "t' = t2" using Cons.prems s1 s2 by simp_all
  note st = do_call_step [OF s1]
  note ih = Cons.IH [OF s2]
  have len: "length (filter (\<lambda>b. b) rs) = length (filter (\<lambda>b. b) r1) + length (filter (\<lambda>b. b) r2)"
    using eq by simp
  have c1: "length (filter (\<lambda>b. b) rs) \<le> (if abdicated t then 0 else 1)"
  proof (cases "filter (\<lambda>b. b) r1 = []")
    case True
    then show ?thesis using len st ih by (auto split: if_splits)
  next
    case False
    then have "filter (\<lambda>b. b) r1 = [True]" "abdicated t1" "\<not> abdicated t" using st by auto
    then show ?thesis using len ih by simp
  qed
  have c2: "(abdicated t \<longrightarrow> state t = ''finished'') \<longrightarrow> (abdicated t' \<longrightarrow> state t' = ''finished'')"
    using st ih eq by blast
  show ?case using c1 c2 by simp
qed

text \<open>
  C7: \<open>abdicate\<close> returns true if and only if the instance is finished and has not abdicated,
  and it then sets \<open>abdicated\<close>, and otherwise changes nothing; in any sequence of calls of
  \<open>abdicate\<close>, \<open>incoming\<close>, \<open>run_if_ready\<close>, \<open>get_satisfaction\<close> and \<open>set_finished\<close> on one
  instance, at most one call of \<open>abdicate\<close> returns true; and such a sequence keeps the
  invariant that an abdicated instance is finished.
\<close>

theorem abdicate_at_most_once:
  "fst (abdicate t) = (state t = ''finished'' \<and> \<not> abdicated t)
   \<and> snd (abdicate t) = (if fst (abdicate t) then t\<lparr>abdicated := True\<rparr> else t)
   \<and> length (filter (\<lambda>b. b) (fst (do_calls cs (t, eff)))) \<le> 1
   \<and> ((abdicated t \<longrightarrow> state t = ''finished'') \<longrightarrow>
        (abdicated (fst (snd (do_calls cs (t, eff))))
           \<longrightarrow> state (fst (snd (do_calls cs (t, eff)))) = ''finished''))"
proof -
  obtain rs t' eff' where d: "do_calls cs (t, eff) = (rs, t', eff')"
    by (cases "do_calls cs (t, eff)")
  from do_calls_count [OF d] have "length (filter (\<lambda>b. b) rs) \<le> 1"
    and "(abdicated t \<longrightarrow> state t = ''finished'') \<longrightarrow> (abdicated t' \<longrightarrow> state t' = ''finished'')"
    by (auto split: if_splits)
  then show ?thesis by (simp add: d abdicate_def)
qed

theorem abdicate_at_most_once_witness:
  "state (nztide_at ''2011010106'' ''finished'' True) = ''finished''
   \<and> fst (do_calls [Abdicate, Incoming ''NORMAL'' ''late report'', Abdicate]
            (nztide_at ''2011010106'' ''finished'' True, no_effects)) = [True, False]
   \<and> abdicated (fst (snd (do_calls [Abdicate, Incoming ''NORMAL'' ''late report'', Abdicate]
            (nztide_at ''2011010106'' ''finished'' True, no_effects))))
   \<and> state (fst (snd (do_calls [Abdicate, Incoming ''NORMAL'' ''late report'', Abdicate]
            (nztide_at ''2011010106'' ''finished'' True, no_effects)))) = ''finished''"
proof -
  let ?t = "nztide_at ''2011010106'' ''finished'' True"
  let ?cs = "[Abdicate, Incoming ''NORMAL'' ''late report'', Abdicate]"
  have h: "state ?t = ''finished''" by (simp add: nztide_at_def)
  have a1: "abdicate ?t = (True, ?t\<lparr>abdicated := True\<rparr>)"
    using abdicate_at_most_once [where t = ?t and cs = "[]" and eff = no_effects]
    by (simp add: nztide_at_def prod_eq_iff)
  obtain u e where inc: "incoming (?t\<lparr>abdicated := True\<rparr>) ''NORMAL'' ''late report'' no_effects = (u, e)"
    by (cases "incoming (?t\<lparr>abdicated := True\<rparr>) ''NORMAL'' ''late report'' no_effects")
  have u: "abdicated u \<and> state u = ''finished''"
    using inc incoming_fst [of "?t\<lparr>abdicated := True\<rparr>" "''NORMAL''" "''late report''" no_effects]
    by (simp add: nztide_at_def)
  have a2: "abdicate u = (False, u)" using u by (simp add: abdicate_def)
  have rs: "fst (do_calls ?cs (?t, no_effects)) = [True, False]"
    by (simp add: a1 inc a2)
  have ab: "abdicated (fst (snd (do_calls ?cs (?t, no_effects))))"
    by (simp add: a1 inc a2 u)
  have st: "state (fst (snd (do_calls ?cs (?t, no_effects)))) = ''finished''"
    using abdicate_at_most_once [where t = ?t and cs = ?cs and eff = no_effects] h ab by blast
  show ?thesis using h rs ab st by simp
qed

section \<open>Messages to an instance that is not running, and repeated messages\<close>

text \<open>
  C8: \<open>incoming\<close> on an instance in any state \<open>st\<close> gives the instance it gives on the same
  instance in state \<open>running\<close>, except that an instance that is not finished by the message
  keeps its state \<open>st\<close>; the postrequisites are the same; the log differs by the one warning
  for a receiver that is not running; no command is launched; and a message that names a
  postrequisite that is satisfied already leaves the postrequisites as they are.
\<close>

theorem incoming_whether_running_or_not:
  "fst (incoming (self\<lparr>state := st\<rparr>) priority message eff)
     = (let r = fst (incoming (self\<lparr>state := ''running''\<rparr>) priority message eff)
        in if all_satisfied (postrequisites r) then r else r\<lparr>state := st\<rparr>)
   \<and> postrequisites (fst (incoming (self\<lparr>state := st\<rparr>) priority message eff))
     = postrequisites (fst (incoming (self\<lparr>state := ''running''\<rparr>) priority message eff))
   \<and> (st \<noteq> ''running'' \<longrightarrow>
        (\<exists>entries.
           log (snd (incoming (self\<lparr>state := ''running''\<rparr>) priority message eff))
             = log eff @ entries
           \<and> log (snd (incoming (self\<lparr>state := st\<rparr>) priority message eff))
             = log eff @ (WARNING, ''MESSAGE FROM NON-RUNNING TASK: '' @ message) # entries))
   \<and> commands (snd (incoming self priority message eff)) = commands eff
   \<and> (requisite_exists (postrequisites self) message \<and> is_satisfied (postrequisites self) message
        \<longrightarrow> postrequisites (fst (incoming self priority message eff)) = postrequisites self)"
proof (intro conjI impI)
  show "fst (incoming (self\<lparr>state := st\<rparr>) priority message eff)
     = (let r = fst (incoming (self\<lparr>state := ''running''\<rparr>) priority message eff)
        in if all_satisfied (postrequisites r) then r else r\<lparr>state := st\<rparr>)"
    by (simp add: incoming_fst Let_def)
  show "postrequisites (fst (incoming (self\<lparr>state := st\<rparr>) priority message eff))
     = postrequisites (fst (incoming (self\<lparr>state := ''running''\<rparr>) priority message eff))"
    by (simp add: incoming_fst)
  show "commands (snd (incoming self priority message eff)) = commands eff"
    by (simp add: incoming_def Let_def logmsg_def split: prod.splits)
next
  assume "st \<noteq> ''running''"
  then show "\<exists>entries.
           log (snd (incoming (self\<lparr>state := ''running''\<rparr>) priority message eff))
             = log eff @ entries
           \<and> log (snd (incoming (self\<lparr>state := st\<rparr>) priority message eff))
             = log eff @ (WARNING, ''MESSAGE FROM NON-RUNNING TASK: '' @ message) # entries"
    by (simp add: incoming_def Let_def logmsg_def)
next
  assume "requisite_exists (postrequisites self) message \<and> is_satisfied (postrequisites self) message"
  then show "postrequisites (fst (incoming self priority message eff)) = postrequisites self"
    by (simp add: incoming_fst post_after_def set_satisfied_def is_satisfied_def update_triv)
qed

theorem incoming_whether_running_or_not_witness:
  "''waiting'' \<noteq> ''running''
   \<and> requisite_exists (postrequisites ricom_06_running) ''ricom started for 2011010106''
   \<and> is_satisfied (postrequisites ricom_06_running) ''ricom started for 2011010106''
   \<and> postrequisites (fst (incoming ricom_06_running ''NORMAL'' ''ricom started for 2011010106'' no_effects))
       = postrequisites ricom_06_running
   \<and> postrequisites (fst (incoming (ricom_06_running\<lparr>state := ''waiting''\<rparr>) ''NORMAL''
                              ''ricom started for 2011010106'' no_effects))
       = postrequisites ricom_06_running
   \<and> log (snd (incoming (ricom_06_running\<lparr>state := ''waiting''\<rparr>) ''NORMAL''
                    ''ricom started for 2011010106'' no_effects))
       = (WARNING, ''MESSAGE FROM NON-RUNNING TASK: ricom started for 2011010106'')
         # log (snd (incoming ricom_06_running ''NORMAL'' ''ricom started for 2011010106'' no_effects))"
proof -
  let ?m = "''ricom started for 2011010106''"
  have w: "''waiting'' \<noteq> ''running''" by simp
  have e: "requisite_exists (postrequisites ricom_06_running) ?m"
    by (simp add: requisite_exists_def ricom_06_running_def)
  have s: "is_satisfied (postrequisites ricom_06_running) ?m"
    by (simp add: is_satisfied_def ricom_06_running_def)
  have r: "ricom_06_running\<lparr>state := ''running''\<rparr> = ricom_06_running"
    by (simp add: ricom_06_running_def)
  have l: "log no_effects = []" by (simp add: no_effects_def)
  note t = incoming_whether_running_or_not [where self = ricom_06_running and st = "''waiting''"
      and priority = "''NORMAL''" and message = ?m and eff = no_effects]
  have p1: "postrequisites (fst (incoming ricom_06_running ''NORMAL'' ?m no_effects))
       = postrequisites ricom_06_running" using t e s by blast
  have c2: "postrequisites (fst (incoming (ricom_06_running\<lparr>state := ''waiting''\<rparr>) ''NORMAL'' ?m no_effects))
       = postrequisites (fst (incoming (ricom_06_running\<lparr>state := ''running''\<rparr>) ''NORMAL'' ?m no_effects))"
    using t by blast
  have p2: "postrequisites (fst (incoming (ricom_06_running\<lparr>state := ''waiting''\<rparr>) ''NORMAL'' ?m no_effects))
       = postrequisites ricom_06_running"
    using c2 p1 by (simp only: r)
  from t w obtain entries where
      e1: "log (snd (incoming (ricom_06_running\<lparr>state := ''running''\<rparr>) ''NORMAL'' ?m no_effects))
             = log no_effects @ entries"
    and e2: "log (snd (incoming (ricom_06_running\<lparr>state := ''waiting''\<rparr>) ''NORMAL'' ?m no_effects))
             = log no_effects @ (WARNING, ''MESSAGE FROM NON-RUNNING TASK: '' @ ?m) # entries"
    by blast
  have p3: "log (snd (incoming (ricom_06_running\<lparr>state := ''waiting''\<rparr>) ''NORMAL'' ?m no_effects))
       = (WARNING, ''MESSAGE FROM NON-RUNNING TASK: ricom started for 2011010106'')
         # log (snd (incoming ricom_06_running ''NORMAL'' ?m no_effects))"
    using e1 e2 by (simp add: r l)
  show ?thesis using w e s p1 p2 p3 by simp
qed

section \<open>The vacation rewrite of the job status file\<close>

lemma concat_file_lines: "concat (file_lines s) = s"
  by (induction s) (auto split: list.splits)

lemma file_lines_empty_iff: "file_lines s = [] \<longleftrightarrow> s = []"
  by (cases s) (auto split: list.splits)

lemma file_lines_complete_append:
  "complete_line l \<Longrightarrow> file_lines (l @ rest) = l # file_lines rest"
proof (induction l)
  case Nil
  then show ?case by (simp add: complete_line_def)
next
  case (Cons c l)
  show ?case
  proof (cases "l = []")
    case True
    then show ?thesis using Cons.prems by (simp add: complete_line_def)
  next
    case False
    then have "complete_line l" "c \<noteq> newline"
      using Cons.prems by (auto simp add: complete_line_def)
    then show ?thesis using Cons.IH by simp
  qed
qed

lemma file_lines_concat:
  "\<forall>l \<in> set ls. complete_line l \<Longrightarrow> file_lines (concat ls) = ls"
  by (induction ls) (simp_all add: file_lines_complete_append)

lemma file_lines_all_complete:
  "s = [] \<or> last s = newline \<Longrightarrow> \<forall>l \<in> set (file_lines s). complete_line l"
proof (induction s)
  case Nil
  then show ?case by simp
next
  case (Cons c s)
  show ?case
  proof (cases "c = newline")
    case True
    have "s = [] \<or> last s = newline" using Cons.prems by (auto split: if_splits)
    with Cons.IH True show ?thesis by (simp add: complete_line_def)
  next
    case False
    then have ne: "s \<noteq> []" and "last s = newline" using Cons.prems by (auto split: if_splits)
    then have ih: "\<forall>l \<in> set (file_lines s). complete_line l" using Cons.IH by simp
    obtain l ls where fl: "file_lines s = l # ls"
      using ne file_lines_empty_iff [of s] by (cases "file_lines s") auto
    have "complete_line (c # l)" using ih fl False by (auto simp add: complete_line_def)
    then show ?thesis using ih fl False by simp
  qed
qed

lemma message_record_complete:
  "newline \<notin> set (true_event_time env @ severity env @ message) \<Longrightarrow>
     complete_line (message_record env message)"
  by (simp add: message_record_def complete_line_def CYLC_MESSAGE_def newline_def butlast_append)

lemma startswith_append: "startswith s p \<Longrightarrow> \<exists>r. s = p @ r"
proof -
  assume "startswith s p"
  then have "p @ drop (length p) s = s"
    using append_take_drop_id [of "length p" s] by (simp add: startswith_def)
  then show ?thesis by metis
qed

lemma vacation_not_other:
  assumes "startswith message VACATION_MESSAGE_PREFIX"
  shows "\<not> startswith message FAIL_MESSAGE_PREFIX \<and> \<not> startswith message ABORT_MESSAGE_PREFIX"
proof -
  obtain r where m: "message = VACATION_MESSAGE_PREFIX @ r"
    using startswith_append [OF assms] by blast
  show ?thesis
    by (simp add: m startswith_def VACATION_MESSAGE_PREFIX_def FAIL_MESSAGE_PREFIX_def
        ABORT_MESSAGE_PREFIX_def)
qed

lemma write_message_vacation:
  assumes "startswith message VACATION_MESSAGE_PREFIX"
    "message \<noteq> TASK_OUTPUT_STARTED env" "message \<noteq> TASK_OUTPUT_SUCCEEDED env"
  shows "write_message env content message =
     concat (filter (\<lambda>line. \<not> startswith line ''CYLC_JOB_'') (file_lines content))
       @ message_record env message"
  using assms vacation_not_other [OF assms(1)] by (simp add: write_message_def)

text \<open>
  C9: let the status file be configured and openable, and let the message begin with
  \<open>Task job script vacated by signal \<close> (and be neither of the two output constants, which
  are tested first). Then after the message is processed the status file holds the prior
  lines that do not start with \<open>CYLC_JOB_\<close>, in their order, followed by the record
  \<open>CYLC_MESSAGE=<time>|<severity>|<text>\<close> and a newline. When the prior content is empty or
  ends with a newline, and the record holds no newline of its own, the lines of the new
  file are exactly those kept lines followed by the record: no line that does not start
  with \<open>CYLC_JOB_\<close> is removed.
\<close>

theorem vacation_rewrites_status_file:
  assumes "cylc_task_log_root env = Some job_log_name" "job_log_name \<noteq> []"
    "\<not> io_error fs (job_log_name @ ''.status'')"
    "startswith message VACATION_MESSAGE_PREFIX"
    "message \<noteq> TASK_OUTPUT_STARTED env" "message \<noteq> TASK_OUTPUT_SUCCEEDED env"
  shows "file_content (update_job_status_file env [message] fs) (job_log_name @ ''.status'')
       = concat (filter (\<lambda>line. \<not> startswith line ''CYLC_JOB_'')
                   (file_lines (file_content fs (job_log_name @ ''.status''))))
         @ CYLC_MESSAGE @ ''='' @ true_event_time env @ ''|'' @ severity env @ ''|'' @ message
         @ [newline]
     \<and> ((file_content fs (job_log_name @ ''.status'') = []
           \<or> last (file_content fs (job_log_name @ ''.status'')) = newline)
          \<and> newline \<notin> set (true_event_time env @ severity env @ message)
        \<longrightarrow> file_lines (file_content (update_job_status_file env [message] fs)
                           (job_log_name @ ''.status''))
            = filter (\<lambda>line. \<not> startswith line ''CYLC_JOB_'')
                (file_lines (file_content fs (job_log_name @ ''.status'')))
              @ [CYLC_MESSAGE @ ''='' @ true_event_time env @ ''|'' @ severity env @ ''|''
                 @ message @ [newline]])"
proof -
  let ?path = "job_log_name @ ''.status''"
  let ?old = "file_content fs ?path"
  let ?kept = "filter (\<lambda>line. \<not> startswith line ''CYLC_JOB_'') (file_lines ?old)"
  have new: "file_content (update_job_status_file env [message] fs) ?path
       = concat ?kept @ message_record env message"
    using assms(1-3) write_message_vacation [OF assms(4-6)]
    by (simp add: update_job_status_file_def file_content_def Let_def)
  have rec: "message_record env message
       = CYLC_MESSAGE @ ''='' @ true_event_time env @ ''|'' @ severity env @ ''|'' @ message
         @ [newline]"
    by (simp add: message_record_def)
  have lines: "file_lines (concat ?kept @ message_record env message)
       = ?kept @ [message_record env message]"
    if c: "?old = [] \<or> last ?old = newline"
      and n: "newline \<notin> set (true_event_time env @ severity env @ message)"
  proof -
    have "\<forall>l \<in> set (?kept @ [message_record env message]). complete_line l"
      using file_lines_all_complete [OF c] message_record_complete [OF n] by auto
    from file_lines_concat [OF this] show ?thesis by simp
  qed
  show ?thesis using new lines by (simp add: rec)
qed

theorem vacation_rewrites_status_file_witness:
  "cylc_task_log_root job_env = Some ''/run/log/job/1/foo/01/job''
   \<and> ''/run/log/job/1/foo/01/job'' \<noteq> []
   \<and> \<not> io_error job_files (''/run/log/job/1/foo/01/job'' @ ''.status'')
   \<and> startswith ''Task job script vacated by signal 15'' VACATION_MESSAGE_PREFIX
   \<and> ''Task job script vacated by signal 15'' \<noteq> TASK_OUTPUT_STARTED job_env
   \<and> ''Task job script vacated by signal 15'' \<noteq> TASK_OUTPUT_SUCCEEDED job_env
   \<and> last (file_content job_files (''/run/log/job/1/foo/01/job'' @ ''.status'')) = newline
   \<and> newline \<notin> set (true_event_time job_env @ severity job_env
                         @ ''Task job script vacated by signal 15'')
   \<and> file_lines (file_content
         (update_job_status_file job_env [''Task job script vacated by signal 15''] job_files)
         (''/run/log/job/1/foo/01/job'' @ ''.status''))
       = [''CYLC_BATCH_SYS_NAME=background'' @ [newline],
          ''CYLC_MESSAGE=2018-01-01T00:00:05Z|CRITICAL|Task job script vacated by signal 15''
            @ [newline]]"
proof -
  let ?m = "''Task job script vacated by signal 15''"
  let ?p = "''/run/log/job/1/foo/01/job'' @ ''.status''"
  have h1: "cylc_task_log_root job_env = Some ''/run/log/job/1/foo/01/job''"
    by (simp add: job_env_def)
  have h2: "''/run/log/job/1/foo/01/job'' \<noteq> []" by simp
  have h3: "\<not> io_error job_files ?p" by (simp add: job_files_def)
  have h4: "startswith ?m VACATION_MESSAGE_PREFIX"
    by (simp add: startswith_def VACATION_MESSAGE_PREFIX_def)
  have h5: "?m \<noteq> TASK_OUTPUT_STARTED job_env" by (simp add: job_env_def)
  have h6: "?m \<noteq> TASK_OUTPUT_SUCCEEDED job_env" by (simp add: job_env_def)
  have c: "file_content job_files ?p
      = ''CYLC_BATCH_SYS_NAME=background'' @ [newline] @ ''CYLC_JOB_PID=4321'' @ [newline]
        @ ''CYLC_JOB_INIT_TIME=2018-01-01T00:00:00Z'' @ [newline]"
    by (simp add: file_content_def job_files_def)
  have h7: "last (file_content job_files ?p) = newline" unfolding c by simp
  have h8: "newline \<notin> set (true_event_time job_env @ severity job_env @ ?m)"
    by (simp add: job_env_def newline_def)
  have l1: "complete_line (''CYLC_BATCH_SYS_NAME=background'' @ [newline])"
    "complete_line (''CYLC_JOB_PID=4321'' @ [newline])"
    "complete_line (''CYLC_JOB_INIT_TIME=2018-01-01T00:00:00Z'' @ [newline])"
    by (simp_all add: complete_line_def newline_def butlast_append)
  have fl: "file_lines (file_content job_files ?p)
      = [''CYLC_BATCH_SYS_NAME=background'' @ [newline], ''CYLC_JOB_PID=4321'' @ [newline],
         ''CYLC_JOB_INIT_TIME=2018-01-01T00:00:00Z'' @ [newline]]"
    using file_lines_concat [of "[''CYLC_BATCH_SYS_NAME=background'' @ [newline],
         ''CYLC_JOB_PID=4321'' @ [newline],
         ''CYLC_JOB_INIT_TIME=2018-01-01T00:00:00Z'' @ [newline]]"] l1
    unfolding c by simp
  have k: "filter (\<lambda>line. \<not> startswith line ''CYLC_JOB_'') (file_lines (file_content job_files ?p))
      = [''CYLC_BATCH_SYS_NAME=background'' @ [newline]]"
    unfolding fl by (simp add: startswith_def)
  have r: "CYLC_MESSAGE @ ''='' @ true_event_time job_env @ ''|'' @ severity job_env @ ''|'' @ ?m
             @ [newline]
      = ''CYLC_MESSAGE=2018-01-01T00:00:05Z|CRITICAL|Task job script vacated by signal 15''
          @ [newline]"
    by (simp add: CYLC_MESSAGE_def job_env_def)
  have "file_lines (file_content (update_job_status_file job_env [?m] job_files) ?p)
      = filter (\<lambda>line. \<not> startswith line ''CYLC_JOB_'') (file_lines (file_content job_files ?p))
        @ [CYLC_MESSAGE @ ''='' @ true_event_time job_env @ ''|'' @ severity job_env @ ''|'' @ ?m
           @ [newline]]"
    using vacation_rewrites_status_file [OF h1 h2 h3 h4 h5 h6] h7 h8 by blast
  then have res: "file_lines (file_content (update_job_status_file job_env [?m] job_files) ?p)
      = [''CYLC_BATCH_SYS_NAME=background'' @ [newline],
         ''CYLC_MESSAGE=2018-01-01T00:00:05Z|CRITICAL|Task job script vacated by signal 15''
           @ [newline]]"
    by (simp only: k r) simp
  show ?thesis using h1 h2 h3 h4 h5 h6 h7 h8 res by blast
qed

section \<open>Stamps: parsing and formatting\<close>

lemma div_100: "(n :: nat) div 100 = n div 10 div 10"
  by (simp add: div_mult2_eq [symmetric])

lemma div_1000: "(n :: nat) div 1000 = n div 10 div 10 div 10"
  by (simp add: div_mult2_eq [symmetric])

lemma dec_step:
  fixes x d :: nat
  assumes "d < 10"
  shows "(10 * x + d) div 10 = x" "(10 * x + d) mod 10 = d"
  using assms by simp_all

lemma dec4:
  fixes a b c d :: nat
  assumes "a < 10" "b < 10" "c < 10" "d < 10"
  shows "(10 * (10 * (10 * a + b) + c) + d) div 1000 mod 10 = a"
    "(10 * (10 * (10 * a + b) + c) + d) div 100 mod 10 = b"
    "(10 * (10 * (10 * a + b) + c) + d) div 10 mod 10 = c"
    "(10 * (10 * (10 * a + b) + c) + d) mod 10 = d"
proof -
  have a: "a mod 10 = a" using assms(1) by simp
  show "(10 * (10 * (10 * a + b) + c) + d) div 1000 mod 10 = a"
    unfolding div_1000 dec_step(1) [OF assms(4)] dec_step(1) [OF assms(3)]
      dec_step(1) [OF assms(2)] by (rule a)
  show "(10 * (10 * (10 * a + b) + c) + d) div 100 mod 10 = b"
    unfolding div_100 dec_step(1) [OF assms(4)] dec_step(1) [OF assms(3)]
    by (rule dec_step(2) [OF assms(2)])
  show "(10 * (10 * (10 * a + b) + c) + d) div 10 mod 10 = c"
    unfolding dec_step(1) [OF assms(4)] by (rule dec_step(2) [OF assms(3)])
  show "(10 * (10 * (10 * a + b) + c) + d) mod 10 = d"
    by (rule dec_step(2) [OF assms(4)])
qed

lemma dec2:
  fixes a b :: nat
  assumes "a < 10" "b < 10"
  shows "(10 * a + b) div 10 mod 10 = a" "(10 * a + b) mod 10 = b"
  using assms by simp_all

lemma enc2:
  fixes n :: nat
  assumes "n < 100"
  shows "10 * (n div 10 mod 10) + n mod 10 = n"
proof -
  have "n div 10 < 10" using assms by simp
  then have "n div 10 mod 10 = n div 10" by simp
  then show ?thesis by simp
qed

lemma enc4:
  fixes n :: nat
  assumes "n < 10000"
  shows "10 * (10 * (10 * (n div 1000 mod 10) + n div 100 mod 10) + n div 10 mod 10) + n mod 10 = n"
proof -
  let ?q1 = "n div 10" let ?q2 = "n div 10 div 10" let ?q3 = "n div 10 div 10 div 10"
  have "?q3 < 10" using assms by simp
  then have q3: "?q3 mod 10 = ?q3" by simp
  have e2: "10 * ?q3 + ?q2 mod 10 = ?q2" by simp
  have e1: "10 * ?q2 + ?q1 mod 10 = ?q1" by simp
  have e0: "10 * ?q1 + n mod 10 = n" by simp
  show ?thesis unfolding div_100 div_1000 q3 e2 e1 e0 ..
qed

lemma digit_char_digit_val: "is_digit c \<Longrightarrow> digit_char (digit_val c) = c"
proof -
  assume d: "is_digit c"
  then have "48 + (of_char c - 48 :: nat) = of_char c" by (simp add: is_digit_def)
  then show ?thesis by (simp add: digit_char_def digit_val_def)
qed

lemma digit_val_less: "is_digit c \<Longrightarrow> digit_val c < 10"
  by (auto simp add: is_digit_def digit_val_def)

lemma digits_val_4: "digits_val [a, b, c, d] =
    10 * (10 * (10 * digit_val a + digit_val b) + digit_val c) + digit_val d"
  by (simp add: digits_val_def)

lemma digits_val_2: "digits_val [a, b] = 10 * digit_val a + digit_val b"
  by (simp add: digits_val_def)

lemma fmt4_digits_val:
  assumes "is_digit a" "is_digit b" "is_digit c" "is_digit d"
  shows "fmt4 (digits_val [a, b, c, d]) = [a, b, c, d]"
proof -
  note l = digit_val_less [OF assms(1)] digit_val_less [OF assms(2)]
    digit_val_less [OF assms(3)] digit_val_less [OF assms(4)]
  show ?thesis
    unfolding fmt4_def digits_val_4 dec4 [OF l]
    using assms by (simp only: digit_char_digit_val)
qed

lemma fmt2_digits_val:
  assumes "is_digit a" "is_digit b"
  shows "fmt2 (digits_val [a, b]) = [a, b]"
proof -
  note l = digit_val_less [OF assms(1)] digit_val_less [OF assms(2)]
  show ?thesis
    unfolding fmt2_def digits_val_2 dec2 [OF l]
    using assms by (simp only: digit_char_digit_val)
qed

lemma stamp_surj: "\<lparr>yr = yr s, mo = mo s, dy = dy s, hr = hr s\<rparr> = (s :: stamp)"
  by (cases s) simp

lemma length_10:
  "length (xs :: 'a list) = 10 \<Longrightarrow>
     \<exists>c0 c1 c2 c3 c4 c5 c6 c7 c8 c9. xs = [c0, c1, c2, c3, c4, c5, c6, c7, c8, c9]"
  by (simp add: eval_nat_numeral length_Suc_conv) blast

lemma format_parse:
  assumes "parse_stamp rt = Inr s"
  shows "format_stamp s = rt"
proof -
  from assms have len: "length rt = 10" and dig: "list_all is_digit rt"
    by (auto simp add: parse_stamp_def split: if_splits)
  from length_10 [OF len] obtain c0 c1 c2 c3 c4 c5 c6 c7 c8 c9
    where rt: "rt = [c0, c1, c2, c3, c4, c5, c6, c7, c8, c9]" by blast
  have s: "s = \<lparr> yr = digits_val [c0, c1, c2, c3], mo = digits_val [c4, c5],
                 dy = digits_val [c6, c7], hr = digits_val [c8, c9] \<rparr>"
    using assms by (simp add: parse_stamp_def rt Let_def split: if_splits)
  show ?thesis using dig
    by (simp add: s rt format_stamp_def fmt4_digits_val fmt2_digits_val)
qed

lemma mod_10_less: "(k :: nat) mod 10 < 10"
  by simp

lemma fmt2_val: "n < 100 \<Longrightarrow> digits_val (fmt2 n) = n"
  unfolding fmt2_def digits_val_2 digit_val_digit_char [OF mod_10_less] by (rule enc2)

lemma fmt4_val: "n < 10000 \<Longrightarrow> digits_val (fmt4 n) = n"
  unfolding fmt4_def digits_val_4 digit_val_digit_char [OF mod_10_less] by (rule enc4)

lemma fmt2_digits: "list_all is_digit (fmt2 n)"
  by (simp add: fmt2_def is_digit_digit_char)

lemma fmt4_digits: "list_all is_digit (fmt4 n)"
  by (simp add: fmt4_def is_digit_digit_char)

lemma wf_stamp_bounds:
  "wf_stamp s \<Longrightarrow> yr s < 10000 \<and> mo s < 100 \<and> dy s < 100 \<and> hr s < 100"
  by (auto simp add: wf_stamp_def wf_date_def days_in_month_def split: if_splits)

lemma parse_format:
  assumes "wf_stamp s"
  shows "parse_stamp (format_stamp s) = Inr s"
proof -
  note b = wf_stamp_bounds [OF assms]
  have f4: "length (fmt4 (yr s)) = 4" by (simp add: fmt4_def)
  have f2: "length (fmt2 n) = 2" for n by (simp add: fmt2_def)
  have len: "length (format_stamp s) = 10" by (simp add: format_stamp_def f4 f2)
  have dig: "list_all is_digit (format_stamp s)"
    by (simp add: format_stamp_def fmt4_digits fmt2_digits)
  have t1: "take 4 (format_stamp s) = fmt4 (yr s)" by (simp add: format_stamp_def f4)
  have t2: "take 2 (drop 4 (format_stamp s)) = fmt2 (mo s)" by (simp add: format_stamp_def f4 f2)
  have t3: "take 2 (drop 6 (format_stamp s)) = fmt2 (dy s)" by (simp add: format_stamp_def f4 f2)
  have t4: "take 2 (drop 8 (format_stamp s)) = fmt2 (hr s)" by (simp add: format_stamp_def f4 f2)
  show ?thesis
    unfolding parse_stamp_def Let_def t1 t2 t3 t4
    using len dig b assms by (simp add: fmt4_val fmt2_val stamp_surj)
qed

lemma hour_field_format:
  assumes "wf_stamp s"
  shows "hour_field (format_stamp s) = Inr (int (hr s))"
proof -
  have f4: "length (fmt4 (yr s)) = 4" by (simp add: fmt4_def)
  have f2: "length (fmt2 n) = 2" for n by (simp add: fmt2_def)
  have t4: "take 2 (drop 8 (format_stamp s)) = fmt2 (hr s)" by (simp add: format_stamp_def f4 f2)
  have ne: "fmt2 (hr s) \<noteq> []" by (simp add: fmt2_def)
  have dg: "\<forall>c \<in> set (fmt2 (hr s)). is_digit c" by (simp add: fmt2_def is_digit_digit_char)
  have "hr s < 100" using wf_stamp_bounds [OF assms] by simp
  then show ?thesis
    unfolding hour_field_def t4 by (simp add: py_int_digits [OF ne dg] fmt2_val)
qed

lemma hour_field_parse:
  "parse_stamp rt = Inr s \<Longrightarrow> hour_field rt = Inr (int (hr s))"
proof -
  assume p: "parse_stamp rt = Inr s"
  then have "wf_stamp s" by (auto simp add: parse_stamp_def Let_def split: if_splits)
  from hour_field_format [OF this] format_parse [OF p] show ?thesis by simp
qed

section \<open>Stepping by hours, and the search for the next valid hour\<close>

lemma days_in_month_pos: "Suc 0 \<le> days_in_month y m"
  by (simp add: days_in_month_def)

lemma next_hour_wf_date: "wf_date s \<Longrightarrow> wf_date (next_hour s)"
  by (auto simp add: wf_date_def next_hour_def days_in_month_pos)

lemma next_hour_yr: "yr (next_hour s) \<le> yr s + 1"
  by (simp add: next_hour_def)

lemma next_hour_hr: "hr s \<le> 23 \<Longrightarrow> hr (next_hour s) = (hr s + 1) mod 24"
  by (auto simp add: next_hour_def)

lemma next_hours:
  "wf_date s \<Longrightarrow> wf_date ((next_hour ^^ k) s)
     \<and> hr ((next_hour ^^ k) s) = (hr s + k) mod 24
     \<and> yr ((next_hour ^^ k) s) \<le> yr s + k"
proof (induction k)
  case 0
  then show ?case by (simp add: wf_date_def)
next
  case (Suc k)
  let ?u = "(next_hour ^^ k) s"
  from Suc have w: "wf_date ?u" and h: "hr ?u = (hr s + k) mod 24" and y: "yr ?u \<le> yr s + k"
    by simp_all
  have h23: "hr ?u \<le> 23" using w by (simp add: wf_date_def)
  have "hr (next_hour ?u) = ((hr s + k) mod 24 + 1) mod 24"
    using next_hour_hr [OF h23] h by simp
  then have "hr (next_hour ?u) = (hr s + Suc k) mod 24" by (simp add: mod_Suc_eq)
  moreover have "yr (next_hour ?u) \<le> yr s + Suc k" using next_hour_yr [of ?u] y by simp
  ultimately show ?case using next_hour_wf_date [OF w] by simp
qed

lemma first_ge_Some:
  "first_ge rh xs = Some d \<Longrightarrow> 0 \<le> d \<and> rh + d \<in> set xs \<and> first_ge (rh + d) xs = Some 0"
proof (induction xs)
  case Nil
  then show ?case by simp
next
  case (Cons x xs)
  show ?case
  proof (cases "rh \<le> x")
    case True
    then show ?thesis using Cons.prems by auto
  next
    case False
    then have "first_ge rh xs = Some d" using Cons.prems by simp
    from Cons.IH [OF this] False show ?thesis by auto
  qed
qed

lemma first_ge_append: "first_ge rh xs = Some d \<Longrightarrow> first_ge rh (xs @ ys) = Some d"
  by (induction xs) (auto split: if_splits)

lemma first_ge_exists: "x \<in> set xs \<Longrightarrow> rh \<le> x \<Longrightarrow> \<exists>d. first_ge rh xs = Some d"
  by (induction xs) auto

lemma first_ge_bound:
  "first_ge rh xs = Some d \<Longrightarrow> \<forall>x \<in> set xs. x \<le> m \<Longrightarrow> d \<le> m - rh"
  by (induction xs) (auto split: if_splits)

lemma first_ge_sorted: "sorted xs \<Longrightarrow> rh \<in> set xs \<Longrightarrow> first_ge rh xs = Some 0"
proof (induction xs)
  case Nil
  then show ?case by simp
next
  case (Cons x xs)
  show ?case
  proof (cases "rh \<le> x")
    case True
    have "x \<le> rh" using Cons.prems by auto
    with True show ?thesis by simp
  next
    case False
    then have "rh \<in> set xs" using Cons.prems by auto
    with Cons False show ?thesis by simp
  qed
qed

lemma class_hours_append: "class_hours vhs \<Longrightarrow> class_hours (vhs @ [24 + hd vhs])"
  by (auto simp add: class_hours_def)

lemma increment_0: "parse_stamp rt = Inr s \<Longrightarrow> increment rt (Some 0) = Inr rt"
proof -
  assume p: "parse_stamp rt = Inr s"
  then have "wf_stamp s" by (auto simp add: parse_stamp_def Let_def split: if_splits)
  then show ?thesis using p format_parse [OF p] by (simp add: increment_def add_hours_def)
qed

lemma increment_nonneg:
  assumes "parse_stamp rt = Inr s" "0 \<le> k" "increment rt (Some k) = Inr rt'"
  shows "\<exists>s'. parse_stamp rt' = Inr s' \<and> int (hr s') = (int (hr s) + k) mod 24"
proof -
  let ?s' = "(next_hour ^^ nat k) s"
  from assms have w: "wf_stamp ?s'" and r: "rt' = format_stamp ?s'"
    by (auto simp add: increment_def add_hours_def Let_def split: if_splits)
  have "wf_stamp s" using assms(1) by (auto simp add: parse_stamp_def Let_def split: if_splits)
  then have "wf_date s" by (simp add: wf_stamp_def)
  from next_hours [OF this, of "nat k"] have "hr ?s' = (hr s + nat k) mod 24" by simp
  then have "int (hr ?s') = (int (hr s) + k) mod 24"
    using assms(2) by (simp add: zmod_int)
  then show ?thesis using parse_format [OF w] r by blast
qed

lemma increment_succeeds:
  assumes "parse_stamp rt = Inr s" "0 \<le> k" "int (yr s) + k \<le> 9999"
  shows "\<exists>rt'. increment rt (Some k) = Inr rt'"
proof -
  have "wf_stamp s" using assms(1) by (auto simp add: parse_stamp_def Let_def split: if_splits)
  then have "wf_date s" by (simp add: wf_stamp_def)
  from next_hours [OF this, of "nat k"]
  have "wf_date ((next_hour ^^ nat k) s)" "yr ((next_hour ^^ nat k) s) \<le> yr s + nat k" by simp_all
  moreover have "yr s + nat k \<le> 9999" using assms(2,3) by linarith
  ultimately have "wf_stamp ((next_hour ^^ nat k) s)" by (simp add: wf_stamp_def)
  then show ?thesis using assms(1,2) by (simp add: increment_def add_hours_def)
qed

lemma parse_stamp_wf: "parse_stamp rt = Inr s \<Longrightarrow> wf_stamp s"
  by (auto simp add: parse_stamp_def Let_def split: if_splits)

lemma nearest_ref_time_eq:
  assumes "parse_stamp t = Inr s" "valid_hours \<noteq> []"
  shows "nearest_ref_time valid_hours t
       = (increment t (first_ge (int (hr s)) (valid_hours @ [24 + hd valid_hours])),
          valid_hours @ [24 + hd valid_hours])"
  using assms hour_field_parse [OF assms(1)]
  by (cases valid_hours) (simp_all add: nearest_ref_time_def Let_def)


text \<open>
  C4: let \<open>t\<close> be a well-formed stamp and \<open>valid_hours\<close> the list of a class. When
  \<open>nearest_ref_time\<close> returns \<open>t'\<close> for \<open>t\<close>, it returns \<open>t'\<close> again for \<open>t'\<close> (called on the
  list as the first call left it); when the list is in ascending order and holds the hour
  of \<open>t\<close>, it returns \<open>t\<close> itself; and it does return a stamp for every year before 9950.
\<close>

theorem nearest_ref_time_idempotent:
  assumes "parse_stamp t = Inr s" "class_hours valid_hours"
  shows "(\<forall>t' vhs'. nearest_ref_time valid_hours t = (Inr t', vhs')
            \<longrightarrow> fst (nearest_ref_time vhs' t') = Inr t')
       \<and> (sorted valid_hours \<and> int (hr s) \<in> set valid_hours
            \<longrightarrow> fst (nearest_ref_time valid_hours t) = Inr t)
       \<and> (yr s < 9950 \<longrightarrow> (\<exists>t'. fst (nearest_ref_time valid_hours t) = Inr t'))"
proof (intro conjI allI impI)
  let ?rh = "int (hr s)"
  let ?v0 = "hd valid_hours"
  let ?foo = "valid_hours @ [24 + ?v0]"
  have ne: "valid_hours \<noteq> []" and v0: "0 \<le> ?v0" "?v0 \<le> 23"
    using assms(2) by (simp_all add: class_hours_def)
  have rh: "0 \<le> ?rh" "?rh \<le> 23"
    using parse_stamp_wf [OF assms(1)] by (simp_all add: wf_stamp_def wf_date_def)
  note eq = nearest_ref_time_eq [OF assms(1) ne]
  have cf: "class_hours ?foo" by (rule class_hours_append [OF assms(2)])
  have hf: "hd ?foo = ?v0" using ne by simp
  have ex: "\<exists>d. first_ge ?rh ?foo = Some d"
    using first_ge_exists [of "24 + ?v0" ?foo ?rh] v0 rh by simp
  {
    fix t' vhs'
    assume n: "nearest_ref_time valid_hours t = (Inr t', vhs')"
    with eq have pr: "(increment t (first_ge ?rh ?foo), ?foo) = (Inr t', vhs')" by (rule subst)
    have vhs': "vhs' = ?foo" using pr by blast
    have inc: "increment t (first_ge ?rh ?foo) = Inr t'" using pr by blast
    from ex obtain d where d: "first_ge ?rh ?foo = Some d" by blast
    from first_ge_Some [OF d] have d0: "0 \<le> d" and mem: "?rh + d \<in> set ?foo"
      and again: "first_ge (?rh + d) ?foo = Some 0" by simp_all
    from increment_nonneg [OF assms(1) d0] inc d obtain s'
      where p': "parse_stamp t' = Inr s'" and h': "int (hr s') = (?rh + d) mod 24" by auto
    have fg: "first_ge (int (hr s')) ?foo = Some 0"
    proof (cases "?rh + d \<le> 23")
      case True
      then have "(?rh + d) mod 24 = ?rh + d" using rh d0 by simp
      then show ?thesis using again h' by simp
    next
      case False
      then have "?rh + d = 24 + ?v0" using cf mem hf by (auto simp add: class_hours_def)
      then have "(?rh + d) mod 24 = ?v0" using v0 by simp
      then have "int (hr s') = ?v0" using h' by simp
      moreover obtain x xs where "valid_hours = x # xs" using ne by (cases valid_hours) auto
      ultimately show ?thesis by simp
    qed
    have "?foo \<noteq> []" by simp
    from nearest_ref_time_eq [OF p' this]
    have "fst (nearest_ref_time ?foo t')
        = increment t' (first_ge (int (hr s')) (?foo @ [24 + hd ?foo]))" by simp
    also have "\<dots> = increment t' (Some 0)" using first_ge_append [OF fg] by simp
    also have "\<dots> = Inr t'" by (rule increment_0 [OF p'])
    finally show "fst (nearest_ref_time vhs' t') = Inr t'" using vhs' by simp
  }
  {
    assume "sorted valid_hours \<and> ?rh \<in> set valid_hours"
    then have "first_ge ?rh valid_hours = Some 0" using first_ge_sorted by blast
    then have "first_ge ?rh ?foo = Some 0" by (rule first_ge_append)
    then show "fst (nearest_ref_time valid_hours t) = Inr t"
      using eq increment_0 [OF assms(1)] by simp
  }
  {
    assume y: "yr s < 9950"
    from ex obtain d where d: "first_ge ?rh ?foo = Some d" by blast
    have "\<forall>x \<in> set ?foo. x \<le> 47" using cf v0 hf by (auto simp add: class_hours_def)
    from first_ge_bound [OF d this] have "d \<le> 47 - ?rh" .
    then have b: "int (yr s) + d \<le> 9999" using y rh by linarith
    have d0: "0 \<le> d" using first_ge_Some [OF d] by simp
    from increment_succeeds [OF assms(1) d0 b] show "\<exists>t'. fst (nearest_ref_time valid_hours t) = Inr t'"
      using eq d by simp
  }
qed

theorem nearest_ref_time_idempotent_witness:
  "parse_stamp ''2011010103'' = Inr \<lparr>yr = 2011, mo = 1, dy = 1, hr = 3\<rparr>
   \<and> parse_stamp ''2011010106'' = Inr \<lparr>yr = 2011, mo = 1, dy = 1, hr = 6\<rparr>
   \<and> class_hours [0, 6, 12, 18]
   \<and> sorted [0, 6, 12, 18 :: int]
   \<and> nearest_ref_time [0, 6, 12, 18] ''2011010103'' = (Inr ''2011010106'', [0, 6, 12, 18, 24])
   \<and> fst (nearest_ref_time [0, 6, 12, 18, 24] ''2011010106'') = Inr ''2011010106''
   \<and> fst (nearest_ref_time [0, 6, 12, 18] ''2011010106'') = Inr ''2011010106''"
proof -
  have p3: "parse_stamp ''2011010103'' = Inr \<lparr>yr = 2011, mo = 1, dy = 1, hr = 3\<rparr>"
    by (simp add: parse_stamp_def is_digit_def digits_val_def digit_val_def wf_stamp_def
        wf_date_def days_in_month_def)
  have p6: "parse_stamp ''2011010106'' = Inr \<lparr>yr = 2011, mo = 1, dy = 1, hr = 6\<rparr>"
    by (simp add: parse_stamp_def is_digit_def digits_val_def digit_val_def wf_stamp_def
        wf_date_def days_in_month_def)
  have c: "class_hours [0, 6, 12, 18]" by (simp add: class_hours_def)
  have so: "sorted [0, 6, 12, 18 :: int]" by simp
  have n: "nearest_ref_time [0, 6, 12, 18] ''2011010103'' = (Inr ''2011010106'', [0, 6, 12, 18, 24])"
    by code_simp
  have i1: "fst (nearest_ref_time [0, 6, 12, 18, 24] ''2011010106'') = Inr ''2011010106''"
    using nearest_ref_time_idempotent [OF p3 c] n by blast
  have m: "int (hr \<lparr>yr = 2011, mo = 1, dy = 1, hr = 6\<rparr>) \<in> set [0, 6, 12, 18]" by simp
  have i2: "fst (nearest_ref_time [0, 6, 12, 18] ''2011010106'') = Inr ''2011010106''"
    using nearest_ref_time_idempotent [OF p6 c] so m by blast
  show ?thesis using p3 p6 c so n i1 i2 by blast
qed


text \<open>
  C5: the claim fails in the code. \<open>nearest_ref_time\<close> appends to the list of the class at
  every call: for \<open>downloader\<close> (hours 0, 6, 12, 18) the list is 0, 6, 12, 18, 24 after
  the first call and has one more 24 after the second; for \<open>globalprep\<close> (hour 0) the list
  has two elements after the first call, so that the test \<open>n_times == 1\<close> of
  \<open>next_ref_time\<close> no longer holds.
\<close>

theorem nearest_ref_time_appends_to_valid_hours:
  "snd (nearest_ref_time [0, 6, 12, 18] ''2011010103'') = [0, 6, 12, 18, 24]
   \<and> snd (nearest_ref_time [0, 6, 12, 18, 24] ''2011010109'') = [0, 6, 12, 18, 24, 24]
   \<and> snd (nearest_ref_time [0] ''2011010100'') = [0, 24]"
  by (simp add: nearest_ref_time_def hour_field_def py_int_eval)

end
